theory Spec2Isabelle
  imports Complex_Main
begin

section \<open>The fragmentation model of the sensitivity-analysis notebook\<close>

text \<open>
  The notebook \<^verbatim>\<open>fragmentmnp-app.ipynb\<close> holds two cells of code. The first one
  hands its parameters to the external package \<^verbatim>\<open>fragmentmnp\<close>; the second one
  (the function \<^verbatim>\<open>fragmentmnp\<close> of the preliminary sensitivity analysis) builds the
  size classes, the fragmentation rates, the fragment size distribution matrix and the
  right-hand side \<^verbatim>\<open>f\<close> itself and passes them to \<^verbatim>\<open>scipy.integrate.solve_ivp\<close>.
  This theory embeds the second cell.

  Numbers: the source computes in IEEE double precision (binary64). The theory reads
  the code twice. The first reading computes in \<^typ>\<open>real\<close>: every operation is the
  exact one. It is used for what rounding does not change: which terms the right-hand
  side has, which errors the construction raises, which entries are set to zero, the
  geometric shape of the size classes, and the solutions of the initial value problem.
  The second reading (the definitions whose names end in \<open>_fl\<close>) rounds the result of
  every operation to binary64. It is used wherever a statement says how close the
  computed numbers are to the exact ones, or that they are not equal to them. A numpy
  array is a list, a matrix a list of rows.
\<close>

subsection \<open>Errors\<close>

text \<open>
  \<open>ValueError\<close> and \<open>IndexError\<close> are the exceptions the array operations of the source
  can raise. \<open>DivideByZero\<close> stands for a division by zero (numpy warns and yields
  \<open>inf\<close>); the model treats it as a failure so that its absence can be stated.
  \<open>ConfigurationError\<close> is the error the specification names; no path of the source
  produces it.
\<close>

datatype error = ValueError | IndexError | DivideByZero | ConfigurationError

definition and_then :: "error + 'a \<Rightarrow> ('a \<Rightarrow> error + 'b) \<Rightarrow> error + 'b" where
  "and_then r g = (case r of Inl e \<Rightarrow> Inl e | Inr x \<Rightarrow> g x)"

subsection \<open>Array primitives\<close>

text \<open>\<^verbatim>\<open>xs[i]\<close> for an index \<open>i \<ge> 0\<close> (the loop indices of \<^verbatim>\<open>np.arange\<close>).\<close>

definition getitem :: "real list \<Rightarrow> nat \<Rightarrow> error + real" where
  "getitem xs i = (if i < length xs then Inr (xs ! i) else Inl IndexError)"

text \<open>\<^verbatim>\<open>xs[i] = v\<close> for a Python integer index: a negative index counts from the end.\<close>

definition setitem :: "real list \<Rightarrow> int \<Rightarrow> real \<Rightarrow> error + real list" where
  "setitem xs i v =
     (let n = int (length xs); j = (if i < 0 then n + i else i)
      in if 0 \<le> j \<and> j < n then Inr (xs[nat j := v]) else Inl IndexError)"

text \<open>\<^verbatim>\<open>M[:,k]\<close> of a square matrix.\<close>

definition column :: "real list list \<Rightarrow> nat \<Rightarrow> error + real list" where
  "column M k = (if k < length M then Inr (map (\<lambda>row. row ! k) M) else Inl IndexError)"

text \<open>
  \<^verbatim>\<open>xs * ys\<close> of two one-dimensional arrays, with numpy's broadcasting: equal lengths
  multiply elementwise, an array of length one is stretched, anything else is a
  \<open>ValueError\<close>.
\<close>

definition np_mul :: "real list \<Rightarrow> real list \<Rightarrow> error + real list" where
  "np_mul xs ys =
     (if length xs = length ys then Inr (map2 (*) xs ys)
      else if length xs = 1 then Inr (map (\<lambda>y. hd xs * y) ys)
      else if length ys = 1 then Inr (map (\<lambda>x. x * hd ys) xs)
      else Inl ValueError)"

text \<open>
  \<^verbatim>\<open>np.linspace(start, stop, num)\<close>: a negative \<open>num\<close> is a \<open>ValueError\<close>; the samples
  are \<open>i * step + start\<close> with \<open>step = (stop - start) / (num - 1)\<close> (for \<open>num = 1\<close>
  there is no step and the only sample is \<open>start\<close>); for \<open>num > 1\<close> the last sample is
  overwritten with \<open>stop\<close>.
\<close>

definition linspace :: "real \<Rightarrow> real \<Rightarrow> int \<Rightarrow> error + real list" where
  "linspace start stop num =
     (if num < 0 then Inl ValueError
      else
        let n = nat num;
            dv = n - 1;
            delta = stop - start;
            y = (if 0 < dv then map (\<lambda>i. real i * (delta / real dv) + start) [0..<n]
                 else map (\<lambda>i. real i * delta + start) [0..<n])
        in Inr (if 1 < n then y[n - 1 := stop] else y))"

text \<open>\<^verbatim>\<open>np.logspace(start, stop, num)\<close> is \<open>10\<close> to the power of the linear samples.\<close>

definition logspace :: "real \<Rightarrow> real \<Rightarrow> int \<Rightarrow> error + real list" where
  "logspace start stop num =
     and_then (linspace start stop num) (\<lambda>y. Inr (map (\<lambda>x. 10 powr x) y))"

text \<open>
  \<^verbatim>\<open>np.median\<close>: the middle element of the sorted array, the mean of the two middle
  elements for an even length, and \<open>nan\<close> (here \<open>None\<close>) for the empty array.
\<close>

definition median :: "real list \<Rightarrow> real option" where
  "median xs =
     (let s = sort xs; n = length xs
      in if n = 0 then None
         else if odd n then Some (s ! (n div 2))
         else Some ((s ! (n div 2 - 1) + s ! (n div 2)) / 2))"

subsection \<open>Fragmentation rates\<close>

text \<open>
  \<^verbatim>\<open>k_prop = _k_frag / (d_median ** (2 * theta1))\<close> and
  \<^verbatim>\<open>k_frag = k_prop * d ** (2 * theta1)\<close>. The diameters are positive, where the
  floating-point power is \<open>powr\<close>. The median is \<open>nan\<close> only for the empty array of
  diameters, and scaling the empty array gives the empty array. This is the exact
  reading; \<open>k_frag_law_fl\<close> below is the rounded one.
\<close>

definition k_frag_law :: "real \<Rightarrow> real \<Rightarrow> real list \<Rightarrow> real list" where
  "k_frag_law k_frag_bar theta1 ds =
     (case median ds of
        None \<Rightarrow> []
      | Some d_median \<Rightarrow>
          let k_prop = k_frag_bar / (d_median powr (2 * theta1))
          in map (\<lambda>x. k_prop * x powr (2 * theta1)) ds)"

subsection \<open>Fragment size distribution matrix\<close>

text \<open>
  \<^verbatim>\<open>1 / (K - k - 1) if (K - k) != 1 else 0\<close>, the value written to the whole of row
  \<open>k\<close>; the division is checked. This is the exact reading; \<open>fsd_row_value_fl\<close> below
  is the rounded one.
\<close>

definition true_div :: "real \<Rightarrow> real \<Rightarrow> error + real" where
  "true_div a b = (if b = 0 then Inl DivideByZero else Inr (a / b))"

definition fsd_row_value :: "nat \<Rightarrow> nat \<Rightarrow> error + real" where
  "fsd_row_value K k =
     (if int K - int k \<noteq> 1 then true_div 1 (real_of_int (int K - int k - 1)) else Inr 0)"

text \<open>The loop \<^verbatim>\<open>for k in np.arange(K): fsd[k,:] = ...\<close> over the matrix so far.\<close>

fun fsd_fill :: "nat \<Rightarrow> nat list \<Rightarrow> real list list \<Rightarrow> error + real list list" where
  "fsd_fill K [] M = Inr M"
| "fsd_fill K (k # ks) M =
     and_then (fsd_row_value K k) (\<lambda>v. fsd_fill K ks (M[k := replicate K v]))"

text \<open>\<^verbatim>\<open>np.triu(M, k=1)\<close>: the entries with \<open>j - i \<ge> 1\<close> are kept, the others are zero.\<close>

definition triu1 :: "real list list \<Rightarrow> real list list" where
  "triu1 M =
     map (\<lambda>i. map (\<lambda>j. if i + 1 \<le> j then M ! i ! j else 0) [0..<length (M ! i)])
       [0..<length M]"

definition fsd_matrix :: "nat \<Rightarrow> error + real list list" where
  "fsd_matrix K =
     and_then (fsd_fill K [0..<K] (replicate K (replicate K 0))) (\<lambda>M. Inr (triu1 M))"

subsection \<open>The model and its right-hand side\<close>

text \<open>
  What the cell has built when it reaches \<^verbatim>\<open>solve_ivp\<close>: the diameters \<^verbatim>\<open>d\<close>
  (field \<open>psd\<close>), the rates \<^verbatim>\<open>k_frag\<close>, the initial state \<^verbatim>\<open>n_0\<close> and the matrix
  \<^verbatim>\<open>fsd\<close>.
\<close>

record model =
  psd :: "real list"
  k_frag :: "real list"
  n_0 :: "real list"
  fsd :: "real list list"

text \<open>
  The size classes \<^verbatim>\<open>d = np.logspace(K_range[1], K_range[0], K)\<close>: \<open>K_range\<close> is the
  pair (minimum exponent, maximum exponent) of the range slider, so the samples run
  from the maximum exponent down to the minimum one.
\<close>

definition d_sizes :: "int \<times> int \<Rightarrow> int \<Rightarrow> error + real list" where
  "d_sizes K_range K = logspace (real_of_int (snd K_range)) (real_of_int (fst K_range)) K"

text \<open>
  The construction, in the order of the source: the size classes, the rates,
  \<^verbatim>\<open>if not loss: k_frag[K-1] = 0.0\<close>, \<^verbatim>\<open>n_0 = np.full(K, _n_0)\<close> and the matrix.
\<close>

definition fragmentmnp ::
  "int \<Rightarrow> int \<times> int \<Rightarrow> real \<Rightarrow> real \<Rightarrow> real \<Rightarrow> bool \<Rightarrow> error + model" where
  "fragmentmnp K K_range k_frag_bar theta1 n0 loss =
     and_then (d_sizes K_range K) (\<lambda>ds.
     and_then (if \<not> loss then setitem (k_frag_law k_frag_bar theta1 ds) (K - 1) 0
               else Inr (k_frag_law k_frag_bar theta1 ds)) (\<lambda>kf.
     and_then (fsd_matrix (nat K)) (\<lambda>M.
       Inr \<lparr>psd = ds, k_frag = kf, n_0 = replicate (nat K) n0, fsd = M\<rparr>)))"

text \<open>
  One entry of the derivative:
  \<^verbatim>\<open>dndt[k] = - k_frag[k] * n[k] + np.sum(fsd[:,k] * k_frag * n)\<close>, its operands
  evaluated from left to right. This is the exact reading; \<open>dndt_k_fl\<close> below is the
  rounded one.
\<close>

definition dndt_k :: "real list \<Rightarrow> real list list \<Rightarrow> real list \<Rightarrow> nat \<Rightarrow> error + real" where
  "dndt_k kf M n k =
     and_then (getitem kf k) (\<lambda>a.
     and_then (getitem n k) (\<lambda>b.
     and_then (column M k) (\<lambda>col.
     and_then (np_mul col kf) (\<lambda>p.
     and_then (np_mul p n) (\<lambda>q.
       Inr (- a * b + sum_list q))))))"

text \<open>The loop \<^verbatim>\<open>for k in np.arange(N)\<close>; the first error ends it.\<close>

fun f_loop :: "real list \<Rightarrow> real list list \<Rightarrow> real list \<Rightarrow> nat list \<Rightarrow> error + real list" where
  "f_loop kf M n [] = Inr []"
| "f_loop kf M n (k # ks) =
     and_then (dndt_k kf M n k) (\<lambda>v.
     and_then (f_loop kf M n ks) (\<lambda>vs. Inr (v # vs)))"

text \<open>\<^verbatim>\<open>def f(t, n)\<close>, closed over \<^verbatim>\<open>k_frag\<close> and \<^verbatim>\<open>fsd\<close>; \<open>N = n.shape[0]\<close>.\<close>

definition f :: "model \<Rightarrow> real \<Rightarrow> real list \<Rightarrow> error + real list" where
  "f m t n = f_loop (k_frag m) (fsd m) n [0..<length n]"

subsection \<open>The integration\<close>

text \<open>
  \<^verbatim>\<open>solve_ivp(fun=f, t_span=(0, T), y0=n_0, t_eval=np.arange(0, T))\<close> hands the
  right-hand side and the initial state to the integrator of an external library, which
  is not part of the source. What the integrator approximates is the solution of the
  initial value problem on \<open>[0, T]\<close>: a trajectory \<open>y\<close> that starts at \<^verbatim>\<open>n_0\<close> and
  whose derivative at every time \<open>t\<close> is \<open>f t (y t)\<close>. \<open>ivp_solution m T y\<close> says that
  \<open>y\<close> is this exact solution. The states that the integrator itself can form are
  described further down, by \<open>rk_states\<close>.
\<close>

definition ivp_solution :: "model \<Rightarrow> real \<Rightarrow> (real \<Rightarrow> real list) \<Rightarrow> bool" where
  "ivp_solution m T y \<longleftrightarrow>
     y 0 = n_0 m \<and>
     (\<forall>t\<in>{0..T}. \<exists>dndt. f m t (y t) = Inr dndt \<and> length (y t) = length (n_0 m) \<and>
        (\<forall>k<length (n_0 m).
           ((\<lambda>s. y s ! k) has_real_derivative dndt ! k) (at t within {0..T})))"

subsection \<open>The right-hand side as the specification words it\<close>

text \<open>
  The specification's equation
  \<^verbatim>\<open>dc_k/dt = -k_frag[k]*c[k] + sum_i f[i][k]*k_frag[i]*c[i] - k_diss[k]*c[k]\<close>,
  written down from its words for comparison with \<open>f\<close>. The rates \<open>k_diss\<close> are a
  parameter here: the source has no such array.
\<close>

definition rhs_spec ::
  "real list \<Rightarrow> real list \<Rightarrow> real list list \<Rightarrow> real list \<Rightarrow> nat \<Rightarrow> real" where
  "rhs_spec kfrag kdiss fm c k =
     - kfrag ! k * c ! k + (\<Sum>i = 0..<length c. fm ! i ! k * kfrag ! i * c ! i)
     - kdiss ! k * c ! k"

subsection \<open>Double precision\<close>

text \<open>
  The definitions above read every arithmetic operation of the source as the exact real
  operation. The source computes in IEEE binary64. The definitions of this subsection
  read the same lines with the rounding of every operation written out.

  \<open>fl\<close> rounds a real to the nearest number with a 53-bit significand, ties to the even
  significand, as every binary64 operation does with its exact result. The exponent
  range is not bounded: overflow to infinity and gradual underflow are not modelled.
\<close>

definition round_even :: "real \<Rightarrow> int" where
  "round_even x =
     (let n = \<lfloor>x\<rfloor>; r = x - of_int n
      in if r < 1 / 2 then n else if 1 / 2 < r then n + 1 else if even n then n else n + 1)"

definition fl :: "real \<Rightarrow> real" where
  "fl x =
     (if x = 0 then 0
      else let e = \<lfloor>log 2 \<bar>x\<bar>\<rfloor> - 52
           in of_int (round_even (x / 2 powr of_int e)) * 2 powr of_int e)"

text \<open>
  \<open>approx j x x'\<close>: the computed \<open>x'\<close> is the exact \<open>x\<close> up to \<open>j\<close> roundings, that is
  up to the relative error \<open>(1 + 2\<^sup>-\<^sup>5\<^sup>3)\<^sup>j - 1\<close>.
\<close>

definition approx :: "nat \<Rightarrow> real \<Rightarrow> real \<Rightarrow> bool" where
  "approx j x x' \<longleftrightarrow> \<bar>x' - x\<bar> \<le> ((1 + 1 / 2 ^ 53) ^ j - 1) * \<bar>x\<bar>"

text \<open>
  Two operations of the source are library routines whose rounding is not that of a
  single binary64 operation; they are parameters of the double-precision definitions.

  The power \<^verbatim>\<open>**\<close> (\<^verbatim>\<open>np.power\<close>) is a parameter \<open>pw\<close>. \<open>pow_ok pw\<close> is what is assumed
  of it: for a positive base the result is within the relative error \<open>2\<^sup>-\<^sup>5\<^sup>0\<close> (four
  units in the last place) of the exact power, and the power with exponent zero is 1.
  The correctly rounded power \<open>pow_fl\<close> is one such routine. One routine serves the
  power of the median and the powers of the array of diameters.

  The sum \<^verbatim>\<open>np.sum\<close> is a parameter \<open>sm\<close>. \<open>sum_ok sm\<close> is what is assumed of it: the
  error bound that holds for adding \<open>n\<close> numbers with at most \<open>n\<close> rounded additions in
  any order. Adding from left to right, \<open>seq_sum\<close>, is one such routine.
\<close>

definition pow_ok :: "(real \<Rightarrow> real \<Rightarrow> real) \<Rightarrow> bool" where
  "pow_ok pw \<longleftrightarrow>
     (\<forall>x y. 0 < x \<longrightarrow> \<bar>pw x y - x powr y\<bar> \<le> x powr y / 2 ^ 50 \<and> pw x 0 = 1)"

definition pow_fl :: "real \<Rightarrow> real \<Rightarrow> real" where
  "pow_fl x y = fl (x powr y)"

definition sum_ok :: "(real list \<Rightarrow> real) \<Rightarrow> bool" where
  "sum_ok sm \<longleftrightarrow>
     (\<forall>xs. \<bar>sm xs - sum_list xs\<bar>
        \<le> ((1 + 1 / 2 ^ 53) ^ length xs - 1) * sum_list (map abs xs))"

definition seq_sum :: "real list \<Rightarrow> real" where
  "seq_sum xs = foldl (\<lambda>s x. fl (s + x)) 0 xs"

text \<open>
  \<^verbatim>\<open>np.linspace\<close> in double precision: \<open>delta = stop - start\<close>, \<open>step = delta / div\<close>,
  \<open>y = arange(0, num) * step + start\<close>, each operation rounded; the last sample is
  \<open>stop\<close> itself. (For a step that rounds to zero numpy multiplies in another order;
  \<open>delta\<close> is zero then and all products are zero either way.)
\<close>

definition linspace_fl :: "real \<Rightarrow> real \<Rightarrow> int \<Rightarrow> error + real list" where
  "linspace_fl start stop num =
     (if num < 0 then Inl ValueError
      else
        let n = nat num;
            dv = n - 1;
            delta = fl (stop - start);
            y = (if 0 < dv
                 then map (\<lambda>i. fl (fl (real i * fl (delta / real dv)) + start)) [0..<n]
                 else map (\<lambda>i. fl (fl (real i * delta) + start)) [0..<n])
        in Inr (if 1 < n then y[n - 1 := stop] else y))"

definition logspace_fl ::
  "(real \<Rightarrow> real \<Rightarrow> real) \<Rightarrow> real \<Rightarrow> real \<Rightarrow> int \<Rightarrow> error + real list" where
  "logspace_fl pw start stop num =
     and_then (linspace_fl start stop num) (\<lambda>y. Inr (map (\<lambda>x. pw 10 x) y))"

text \<open>The exponents of the slider are Python integers, converted to doubles.\<close>

definition d_sizes_fl ::
  "(real \<Rightarrow> real \<Rightarrow> real) \<Rightarrow> int \<times> int \<Rightarrow> int \<Rightarrow> error + real list" where
  "d_sizes_fl pw K_range K =
     logspace_fl pw (fl (real_of_int (snd K_range))) (fl (real_of_int (fst K_range))) K"

text \<open>
  \<^verbatim>\<open>np.median\<close> in double precision: the mean of the two middle elements is their
  rounded sum, divided by 2.
\<close>

definition median_fl :: "real list \<Rightarrow> real option" where
  "median_fl xs =
     (let s = sort xs; n = length xs
      in if n = 0 then None
         else if odd n then Some (s ! (n div 2))
         else Some (fl (fl (s ! (n div 2 - 1) + s ! (n div 2)) / 2)))"

text \<open>
  The rates in double precision. \<^verbatim>\<open>2 * theta1\<close> is not rounded: doubling a binary64
  number is exact.
\<close>

definition k_frag_law_fl ::
  "(real \<Rightarrow> real \<Rightarrow> real) \<Rightarrow> real \<Rightarrow> real \<Rightarrow> real list \<Rightarrow> real list" where
  "k_frag_law_fl pw k_frag_bar theta1 ds =
     (case median_fl ds of
        None \<Rightarrow> []
      | Some d_median \<Rightarrow>
          let k_prop = fl (k_frag_bar / pw d_median (2 * theta1))
          in map (\<lambda>x. fl (k_prop * pw x (2 * theta1))) ds)"

text \<open>The matrix in double precision: the quotient \<^verbatim>\<open>1 / (K - k - 1)\<close> is rounded.\<close>

definition true_div_fl :: "real \<Rightarrow> real \<Rightarrow> error + real" where
  "true_div_fl a b = (if b = 0 then Inl DivideByZero else Inr (fl (a / b)))"

definition fsd_row_value_fl :: "nat \<Rightarrow> nat \<Rightarrow> error + real" where
  "fsd_row_value_fl K k =
     (if int K - int k \<noteq> 1 then true_div_fl 1 (real_of_int (int K - int k - 1)) else Inr 0)"

fun fsd_fill_fl :: "nat \<Rightarrow> nat list \<Rightarrow> real list list \<Rightarrow> error + real list list" where
  "fsd_fill_fl K [] M = Inr M"
| "fsd_fill_fl K (k # ks) M =
     and_then (fsd_row_value_fl K k) (\<lambda>v. fsd_fill_fl K ks (M[k := replicate K v]))"

definition fsd_matrix_fl :: "nat \<Rightarrow> error + real list list" where
  "fsd_matrix_fl K =
     and_then (fsd_fill_fl K [0..<K] (replicate K (replicate K 0))) (\<lambda>M. Inr (triu1 M))"

text \<open>The construction in double precision.\<close>

definition fragmentmnp_fl ::
  "(real \<Rightarrow> real \<Rightarrow> real) \<Rightarrow> int \<Rightarrow> int \<times> int \<Rightarrow> real \<Rightarrow> real \<Rightarrow> real \<Rightarrow> bool
     \<Rightarrow> error + model" where
  "fragmentmnp_fl pw K K_range k_frag_bar theta1 n0 loss =
     and_then (d_sizes_fl pw K_range K) (\<lambda>ds.
     and_then (if \<not> loss then setitem (k_frag_law_fl pw k_frag_bar theta1 ds) (K - 1) 0
               else Inr (k_frag_law_fl pw k_frag_bar theta1 ds)) (\<lambda>kf.
     and_then (fsd_matrix_fl (nat K)) (\<lambda>M.
       Inr \<lparr>psd = ds, k_frag = kf, n_0 = replicate (nat K) n0, fsd = M\<rparr>)))"

text \<open>
  The right-hand side in double precision: every product is rounded, the products are
  added by \<open>sm\<close>, and the sum of the two terms is rounded.
\<close>

definition np_mul_fl :: "real list \<Rightarrow> real list \<Rightarrow> error + real list" where
  "np_mul_fl xs ys =
     (if length xs = length ys then Inr (map2 (\<lambda>x y. fl (x * y)) xs ys)
      else if length xs = 1 then Inr (map (\<lambda>y. fl (hd xs * y)) ys)
      else if length ys = 1 then Inr (map (\<lambda>x. fl (x * hd ys)) xs)
      else Inl ValueError)"

definition dndt_k_fl ::
  "(real list \<Rightarrow> real) \<Rightarrow> real list \<Rightarrow> real list list \<Rightarrow> real list \<Rightarrow> nat \<Rightarrow> error + real" where
  "dndt_k_fl sm kf M n k =
     and_then (getitem kf k) (\<lambda>a.
     and_then (getitem n k) (\<lambda>b.
     and_then (column M k) (\<lambda>col.
     and_then (np_mul_fl col kf) (\<lambda>p.
     and_then (np_mul_fl p n) (\<lambda>q.
       Inr (fl (fl (- a * b) + sm q)))))))"

fun f_loop_fl ::
  "(real list \<Rightarrow> real) \<Rightarrow> real list \<Rightarrow> real list list \<Rightarrow> real list \<Rightarrow> nat list
     \<Rightarrow> error + real list" where
  "f_loop_fl sm kf M n [] = Inr []"
| "f_loop_fl sm kf M n (k # ks) =
     and_then (dndt_k_fl sm kf M n k) (\<lambda>v.
     and_then (f_loop_fl sm kf M n ks) (\<lambda>vs. Inr (v # vs)))"

definition f_fl :: "(real list \<Rightarrow> real) \<Rightarrow> model \<Rightarrow> real \<Rightarrow> real list \<Rightarrow> error + real list" where
  "f_fl sm m t n = f_loop_fl sm (k_frag m) (fsd m) n [0..<length n]"

subsection \<open>The states of a Runge-Kutta integration\<close>



section \<open>Array primitives: basic facts\<close>

lemma and_then_Inr [simp]: "and_then (Inr x) g = g x"
  by (simp add: and_then_def)

lemma and_then_Inl [simp]: "and_then (Inl e) g = Inl e"
  by (simp add: and_then_def)

section \<open>The fragment size distribution matrix\<close>

lemma fsd_row_value_eq:
  "k < K \<Longrightarrow> fsd_row_value K k = Inr (if k + 1 < K then 1 / real (K - k - 1) else 0)"
  by (auto simp: fsd_row_value_def true_div_def)

lemma fsd_fill_eq:
  "\<forall>k\<in>set ks. k < K \<Longrightarrow> length M = K \<Longrightarrow>
   \<exists>M'. fsd_fill K ks M = Inr M' \<and> length M' = K \<and>
     (\<forall>i<K. M' ! i = (if i \<in> set ks then replicate K (if i + 1 < K then 1 / real (K - i - 1) else 0) else M ! i))"
proof (induction ks arbitrary: M)
  case Nil
  then show ?case by simp
next
  case (Cons k ks)
  let ?v = "if k + 1 < K then 1 / real (K - k - 1) else 0"
  from Cons.prems have k: "k < K" and ks: "\<forall>k\<in>set ks. k < K" by simp_all
  have len: "length (M[k := replicate K ?v]) = K" using Cons.prems by simp
  from Cons.IH[OF ks len] obtain M' where
    M': "fsd_fill K ks (M[k := replicate K ?v]) = Inr M'" "length M' = K"
    "\<forall>i<K. M' ! i = (if i \<in> set ks then replicate K (if i + 1 < K then 1 / real (K - i - 1) else 0) else (M[k := replicate K ?v]) ! i)"
    by blast
  have "fsd_fill K (k # ks) M = Inr M'"
    using M'(1) k by (simp add: fsd_row_value_eq)
  moreover have "\<forall>i<K. M' ! i = (if i \<in> set (k # ks) then replicate K (if i + 1 < K then 1 / real (K - i - 1) else 0) else M ! i)"
    using M'(3) Cons.prems(2) by (auto simp: nth_list_update)
  ultimately show ?case using M'(2) by blast
qed

lemma fsd_matrix_eq:
  "fsd_matrix K = Inr (map (\<lambda>i. map (\<lambda>j. if i < j then 1 / real (K - i - 1) else 0) [0..<K]) [0..<K])"
proof -
  have "\<forall>k\<in>set [0..<K]. k < K" by simp
  from fsd_fill_eq[OF this, of "replicate K (replicate K 0)"] obtain M' where
    M': "fsd_fill K [0..<K] (replicate K (replicate K 0)) = Inr M'" "length M' = K"
    "\<forall>i<K. M' ! i = replicate K (if i + 1 < K then 1 / real (K - i - 1) else 0)"
    by auto
  have "triu1 M' = map (\<lambda>i. map (\<lambda>j. if i < j then 1 / real (K - i - 1) else 0) [0..<K]) [0..<K]"
    unfolding triu1_def using M'(2,3) by (auto simp: Suc_le_eq)
  then show ?thesis by (simp add: fsd_matrix_def M'(1))
qed

lemma row_sum:
  assumes "i < K"
  shows "sum_list (map (\<lambda>j. if i < j then c else (0::real)) [0..<K]) = real (K - i - 1) * c"
proof -
  have "sum_list (map (\<lambda>j. if i < j then c else 0) [0..<K]) = (\<Sum>j = 0..<K. if i < j then c else 0)"
    by (simp add: interv_sum_list_conv_sum_set_nat)
  also have "\<dots> = (\<Sum>j = 0..<i + 1. if i < j then c else 0) + (\<Sum>j = i + 1..<K. if i < j then c else 0)"
    using assms by (intro sum.atLeastLessThan_concat[symmetric]) simp_all
  also have "(\<Sum>j = 0..<i + 1. if i < j then c else 0) = 0"
    by (intro sum.neutral) simp
  also have "(\<Sum>j = i + 1..<K. if i < j then c else 0) = (\<Sum>j = i + 1..<K. c)"
    by (intro sum.cong) simp_all
  also have "0 + (\<Sum>j = i + 1..<K. c) = real (K - i - 1) * c" by simp
  finally show ?thesis .
qed

section \<open>The right-hand side\<close>

lemma dndt_k_eq:
  assumes "length kf = K" "length M = K" "length n = K" "k < K"
  shows "dndt_k kf M n k = Inr (- kf ! k * n ! k + (\<Sum>i = 0..<K. M ! i ! k * kf ! i * n ! i))"
proof -
  have "sum_list (map2 (*) (map2 (*) (map (\<lambda>row. row ! k) M) kf) n)
      = (\<Sum>i = 0..<K. M ! i ! k * kf ! i * n ! i)"
    using assms by (simp add: sum_list_sum_nth)
  then show ?thesis
    using assms by (simp add: dndt_k_def getitem_def column_def np_mul_def)
qed

lemma f_loop_eq:
  assumes "length kf = K" "length M = K" "length n = K" "\<forall>k\<in>set ks. k < K"
  shows "f_loop kf M n ks
       = Inr (map (\<lambda>k. - kf ! k * n ! k + (\<Sum>i = 0..<K. M ! i ! k * kf ! i * n ! i)) ks)"
  using assms(4)
proof (induction ks)
  case Nil
  show ?case by simp
next
  case (Cons k ks)
  then show ?case using dndt_k_eq[OF assms(1-3), of k] by simp
qed

lemma f_eq:
  assumes "length (k_frag m) = K" "length (fsd m) = K" "length n = K"
  shows "f m t n
       = Inr (map (\<lambda>k. - k_frag m ! k * n ! k + (\<Sum>i = 0..<K. fsd m ! i ! k * k_frag m ! i * n ! i)) [0..<K])"
  unfolding f_def using f_loop_eq[OF assms, of "[0..<K]"] assms(3) by simp

section \<open>Size classes and rates\<close>

lemma linspace_neg: "num < 0 \<Longrightarrow> linspace a b num = Inl ValueError"
  by (simp add: linspace_def)

lemma linspace_eq:
  assumes "0 \<le> num"
  shows "linspace a b num
       = Inr (map (\<lambda>i. a + real i * ((b - a) / real (nat num - 1))) [0..<nat num])"
proof -
  define n where "n = nat num"
  have neg: "\<not> num < 0" using assms by simp
  consider "n = 0" | "n = 1" | "1 < n" by linarith
  then have "linspace a b num = Inr (map (\<lambda>i. a + real i * ((b - a) / real (n - 1))) [0..<n])"
  proof cases
    case 1
    then show ?thesis
      unfolding linspace_def Let_def n_def[symmetric] using neg by simp
  next
    case 2
    then show ?thesis
      unfolding linspace_def Let_def n_def[symmetric] using neg by simp
  next
    case 3
    then have "(map (\<lambda>i. real i * ((b - a) / real (n - 1)) + a) [0..<n])[n - 1 := b]
        = map (\<lambda>i. a + real i * ((b - a) / real (n - 1))) [0..<n]"
      by (intro nth_equalityI) (auto simp: nth_list_update add.commute)
    with 3 show ?thesis
      unfolding linspace_def Let_def n_def[symmetric] using neg by simp
  qed
  then show ?thesis by (simp add: n_def)
qed

lemma logspace_neg: "num < 0 \<Longrightarrow> logspace a b num = Inl ValueError"
  by (simp add: logspace_def linspace_neg)

lemma logspace_eq:
  "0 \<le> num \<Longrightarrow> logspace a b num
       = Inr (map (\<lambda>i. 10 powr (a + real i * ((b - a) / real (nat num - 1)))) [0..<nat num])"
  by (simp add: logspace_def linspace_eq comp_def)

lemma median_Nil: "median [] = None"
  by (simp add: median_def)

lemma median_bounds:
  assumes "xs \<noteq> []"
  shows "\<exists>m. median xs = Some m \<and> (\<forall>lo. (\<forall>x\<in>set xs. lo < x) \<longrightarrow> lo < m)"
proof -
  define s where "s = sort xs"
  define n where "n = length xs"
  have n: "0 < n" using assms by (simp add: n_def)
  have mem: "i < n \<Longrightarrow> s ! i \<in> set xs" for i
    using nth_mem[of i s] by (simp add: s_def n_def)
  show ?thesis
  proof (cases "odd n")
    case True
    have "median xs = Some (s ! (n div 2))"
      using True n by (simp add: median_def s_def n_def Let_def)
    moreover have "s ! (n div 2) \<in> set xs" using n by (intro mem) simp
    ultimately show ?thesis by auto
  next
    case False
    have "median xs = Some ((s ! (n div 2 - 1) + s ! (n div 2)) / 2)"
      using False n by (simp add: median_def s_def n_def Let_def)
    moreover have "s ! (n div 2) \<in> set xs" using n by (intro mem) simp
    moreover have "s ! (n div 2 - 1) \<in> set xs" using n by (intro mem) simp
    moreover have "lo < (x + y) / 2" if "lo < x" "lo < y" for lo x y :: real
      using that by simp
    ultimately show ?thesis by blast
  qed
qed

lemma length_k_frag_law: "length (k_frag_law kb th ds) = length ds"
proof (cases ds)
  case Nil
  then show ?thesis by (simp add: k_frag_law_def median_Nil)
next
  case (Cons x xs)
  then obtain m where "median ds = Some m" using median_bounds[of ds] by auto
  then show ?thesis by (simp add: k_frag_law_def Let_def)
qed

lemma setitem_last:
  "1 \<le> K \<Longrightarrow> length xs = nat K \<Longrightarrow> setitem xs (K - 1) v = Inr (xs[nat K - 1 := v])"
  by (auto simp: setitem_def Let_def nat_diff_distrib)

lemma setitem_Nil: "setitem [] i v = Inl IndexError"
  by (simp add: setitem_def Let_def)

lemma logspace_length: "logspace a b K = Inr ds \<Longrightarrow> length ds = nat K"
  by (cases "K < 0") (auto simp: logspace_neg logspace_eq)

lemma logspace_nth:
  "logspace a b K = Inr ds \<Longrightarrow> i < nat K \<Longrightarrow>
   ds ! i = 10 powr (a + real i * ((b - a) / real (nat K - 1)))"
  by (cases "K < 0") (auto simp: logspace_neg logspace_eq)

lemma d_sizes_neg: "K < 0 \<Longrightarrow> d_sizes r K = Inl ValueError"
  by (simp add: d_sizes_def logspace_neg)

lemma d_sizes_ex: "0 \<le> K \<Longrightarrow> \<exists>ds. d_sizes r K = Inr ds"
  by (simp add: d_sizes_def logspace_eq)

lemma d_sizes_length: "d_sizes r K = Inr ds \<Longrightarrow> length ds = nat K"
  unfolding d_sizes_def by (rule logspace_length)

lemma d_sizes_nth:
  "d_sizes r K = Inr ds \<Longrightarrow> i < nat K \<Longrightarrow>
   ds ! i = 10 powr (real_of_int (snd r)
              + real i * ((real_of_int (fst r) - real_of_int (snd r)) / real (nat K - 1)))"
  unfolding d_sizes_def by (rule logspace_nth)

section \<open>The constructed model\<close>

lemma fragmentmnp_Inr:
  assumes "1 \<le> K" and "d_sizes r K = Inr ds"
  shows "fragmentmnp K r kb th n0 loss =
    Inr \<lparr>psd = ds,
         k_frag = (if loss then k_frag_law kb th ds else (k_frag_law kb th ds)[nat K - 1 := 0]),
         n_0 = replicate (nat K) n0,
         fsd = map (\<lambda>i. map (\<lambda>j. if i < j then 1 / real (nat K - i - 1) else 0) [0..<nat K])
                 [0..<nat K]\<rparr>"
proof -
  have "length (k_frag_law kb th ds) = nat K"
    using d_sizes_length[OF assms(2)] by (simp add: length_k_frag_law)
  then have "setitem (k_frag_law kb th ds) (K - 1) 0 = Inr ((k_frag_law kb th ds)[nat K - 1 := 0])"
    using assms(1) by (simp add: setitem_last)
  then show ?thesis
    by (simp add: fragmentmnp_def assms(2) fsd_matrix_eq)
qed

lemma fragmentmnp_fields:
  assumes "fragmentmnp K r kb th n0 loss = Inr m" "1 \<le> K"
  shows "d_sizes r K = Inr (psd m)"
    and "k_frag m = (if loss then k_frag_law kb th (psd m) else (k_frag_law kb th (psd m))[nat K - 1 := 0])"
    and "n_0 m = replicate (nat K) n0"
    and "fsd m = map (\<lambda>i. map (\<lambda>j. if i < j then 1 / real (nat K - i - 1) else 0) [0..<nat K]) [0..<nat K]"
    and "length (psd m) = nat K" and "length (k_frag m) = nat K"
proof -
  obtain ds where ds: "d_sizes r K = Inr ds"
    using assms(2) d_sizes_ex[of K r] by auto
  from fragmentmnp_Inr[OF assms(2) ds, of kb th n0 loss] assms(1)
  have m: "m = \<lparr>psd = ds,
         k_frag = (if loss then k_frag_law kb th ds else (k_frag_law kb th ds)[nat K - 1 := 0]),
         n_0 = replicate (nat K) n0,
         fsd = map (\<lambda>i. map (\<lambda>j. if i < j then 1 / real (nat K - i - 1) else 0) [0..<nat K])
                 [0..<nat K]\<rparr>"
    by simp
  show "d_sizes r K = Inr (psd m)"
    using ds m by simp
  show "k_frag m = (if loss then k_frag_law kb th (psd m) else (k_frag_law kb th (psd m))[nat K - 1 := 0])"
    using m by simp
  show "n_0 m = replicate (nat K) n0" using m by simp
  show "fsd m = map (\<lambda>i. map (\<lambda>j. if i < j then 1 / real (nat K - i - 1) else 0) [0..<nat K]) [0..<nat K]"
    using m by simp
  show "length (psd m) = nat K" using m d_sizes_length[OF ds] by simp
  show "length (k_frag m) = nat K" using m d_sizes_length[OF ds] by (simp add: length_k_frag_law)
qed

lemma f_model:
  assumes "fragmentmnp K r kb th n0 loss = Inr m" "1 \<le> K" "length n = nat K"
  shows "f m t n = Inr (map (\<lambda>k. - k_frag m ! k * n ! k
            + (\<Sum>i = 0..<nat K. (if i < k then 1 / real (nat K - i - 1) else 0) * k_frag m ! i * n ! i))
          [0..<nat K])"
proof -
  note flds = fragmentmnp_fields[OF assms(1,2)]
  have lenM: "length (fsd m) = nat K" by (simp add: flds(4))
  have "f m t n = Inr (map (\<lambda>k. - k_frag m ! k * n ! k
            + (\<Sum>i = 0..<nat K. fsd m ! i ! k * k_frag m ! i * n ! i)) [0..<nat K])"
    by (rule f_eq[OF flds(6) lenM assms(3)])
  also have "map (\<lambda>k. - k_frag m ! k * n ! k
            + (\<Sum>i = 0..<nat K. fsd m ! i ! k * k_frag m ! i * n ! i)) [0..<nat K]
     = map (\<lambda>k. - k_frag m ! k * n ! k
            + (\<Sum>i = 0..<nat K. (if i < k then 1 / real (nat K - i - 1) else 0) * k_frag m ! i * n ! i))
          [0..<nat K]"
    by (intro map_cong refl arg_cong2[where f="(+)"] sum.cong) (simp_all add: flds(4))
  finally show ?thesis .
qed

section \<open>The total of the derivative\<close>

lemma row_sum_set:
  assumes "i < K"
  shows "(\<Sum>j = 0..<K. if i < j then c else (0::real)) = real (K - i - 1) * c"
  using row_sum[OF assms, of c] by (simp add: interv_sum_list_conv_sum_set_nat)

lemma even_split_column_sums:
  fixes kf n :: "real list"
  assumes "1 \<le> K"
  shows "(\<Sum>k = 0..<K. \<Sum>i = 0..<K. (if i < k then 1 / real (K - i - 1) else 0) * kf ! i * n ! i)
       = (\<Sum>i = 0..<K - 1. kf ! i * n ! i)"
proof -
  have "(\<Sum>k = 0..<K. \<Sum>i = 0..<K. (if i < k then 1 / real (K - i - 1) else 0) * kf ! i * n ! i)
      = (\<Sum>i = 0..<K. \<Sum>k = 0..<K. (if i < k then 1 / real (K - i - 1) else 0) * kf ! i * n ! i)"
    by (rule sum.swap)
  also have "\<dots> = (\<Sum>i = 0..<K. (\<Sum>k = 0..<K. if i < k then 1 / real (K - i - 1) else 0) * (kf ! i * n ! i))"
    by (simp add: sum_distrib_right mult.assoc)
  also have "\<dots> = (\<Sum>i = 0..<K. (if i + 1 < K then 1 else 0) * (kf ! i * n ! i))"
  proof (rule sum.cong[OF refl])
    fix i assume "i \<in> {0..<K}"
    then have i: "i < K" by simp
    have "(\<Sum>k = 0..<K. if i < k then 1 / real (K - i - 1) else 0) = (if i + 1 < K then 1 else 0)"
      using i by (simp add: row_sum_set)
    then show "(\<Sum>k = 0..<K. if i < k then 1 / real (K - i - 1) else 0) * (kf ! i * n ! i)
        = (if i + 1 < K then 1 else 0) * (kf ! i * n ! i)"
      by simp
  qed
  also have "\<dots> = (\<Sum>i = 0..<K - 1. kf ! i * n ! i)"
  proof -
    from assms obtain K' where K: "K = Suc K'" by (cases K) simp_all
    have "(\<Sum>i = 0..<K'. (if i + 1 < Suc K' then 1 else 0) * (kf ! i * n ! i))
        = (\<Sum>i = 0..<K'. kf ! i * n ! i)"
      by (intro sum.cong) simp_all
    then show ?thesis by (simp add: K)
  qed
  finally show ?thesis .
qed

lemma total_rhs:
  fixes kf n :: "real list"
  assumes "1 \<le> K"
  shows "(\<Sum>k = 0..<K. - kf ! k * n ! k
            + (\<Sum>i = 0..<K. (if i < k then 1 / real (K - i - 1) else 0) * kf ! i * n ! i))
       = - kf ! (K - 1) * n ! (K - 1)"
proof -
  have split: "(\<Sum>k = 0..<K. kf ! k * n ! k)
      = (\<Sum>k = 0..<K - 1. kf ! k * n ! k) + kf ! (K - 1) * n ! (K - 1)"
    using assms sum.atLeast0_lessThan_Suc[of "\<lambda>k. kf ! k * n ! k" "K - 1"] by simp
  have "(\<Sum>k = 0..<K. - kf ! k * n ! k
            + (\<Sum>i = 0..<K. (if i < k then 1 / real (K - i - 1) else 0) * kf ! i * n ! i))
      = - (\<Sum>k = 0..<K. kf ! k * n ! k)
        + (\<Sum>k = 0..<K. \<Sum>i = 0..<K. (if i < k then 1 / real (K - i - 1) else 0) * kf ! i * n ! i)"
    by (simp add: sum.distrib sum_negf sum_subtractf)
  also have "\<dots> = - kf ! (K - 1) * n ! (K - 1)"
    using split even_split_column_sums[OF assms, of kf n] by simp
  finally show ?thesis .
qed


section \<open>Models at concrete parameters\<close>

lemma upt_2: "[0..<2] = [0, Suc 0]"
  by (simp add: upt_rec numeral_2_eq_2)

lemma upt_3: "[0..<3] = [0, Suc 0, 2]"
  by (simp add: upt_rec numeral_3_eq_3 numeral_2_eq_2)

lemma d_sizes_1: "d_sizes (lo, hi) 1 = Inr [10 powr real_of_int hi]"
  by (simp add: d_sizes_def logspace_eq)

lemma d_sizes_2: "d_sizes (lo, hi) 2 = Inr [10 powr real_of_int hi, 10 powr real_of_int lo]"
  by (simp add: d_sizes_def logspace_eq upt_2)

lemma d_sizes_3:
  "d_sizes (lo, hi) 3 = Inr [10 powr real_of_int hi, 10 powr ((real_of_int hi + real_of_int lo) / 2), 10 powr real_of_int lo]"
  by (simp add: d_sizes_def logspace_eq upt_3 field_simps)

lemma median_1: "median [x] = Some x"
  by (simp add: median_def)

lemma median_2: "median [x, y] = Some ((x + y) / 2)"
  by (auto simp: median_def Let_def)

lemma model_K1:
  "fragmentmnp 1 (lo, hi) kb th n0 loss =
     Inr \<lparr>psd = [10 powr real_of_int hi], k_frag = [if loss then kb else 0], n_0 = [n0], fsd = [[0]]\<rparr>"
proof -
  have h: "(1::int) \<le> 1" by simp
  show ?thesis
    using fragmentmnp_Inr[OF h d_sizes_1, of lo hi kb th n0 loss]
    by (simp add: k_frag_law_def median_1)
qed

lemma model_K2:
  "fragmentmnp 2 (lo, hi) kb th n0 loss =
     Inr \<lparr>psd = [10 powr real_of_int hi, 10 powr real_of_int lo],
          k_frag = (if loss then k_frag_law kb th [10 powr real_of_int hi, 10 powr real_of_int lo]
                    else (k_frag_law kb th [10 powr real_of_int hi, 10 powr real_of_int lo])[1 := 0]),
          n_0 = [n0, n0], fsd = [[0, 1], [0, 0]]\<rparr>"
proof -
  have h: "(1::int) \<le> 2" by simp
  show ?thesis
    using fragmentmnp_Inr[OF h d_sizes_2, of lo hi kb th n0 loss]
    by (simp add: upt_2 numeral_2_eq_2)
qed

lemma k_frag_law_theta0_2: "0 < x \<Longrightarrow> 0 < y \<Longrightarrow> k_frag_law kb 0 [x, y] = [kb, kb]"
  by (simp add: k_frag_law_def median_2 Let_def add_pos_pos less_imp_neq[THEN not_sym])

section \<open>The smallest class as a terminal sink\<close>

lemma d_sizes_antimono:
  assumes "d_sizes r K = Inr ds" "fst r \<le> snd r" "i \<le> j" "j < nat K"
  shows "ds ! j \<le> ds ! i"
proof -
  define c where "c = (real_of_int (fst r) - real_of_int (snd r)) / real (nat K - 1)"
  have "c \<le> 0" using assms(2) by (simp add: c_def divide_nonpos_nonneg)
  then have "real j * c \<le> real i * c"
    using assms(3) by (simp add: mult_right_mono_neg)
  then show ?thesis
    using assms(3,4) by (simp add: d_sizes_nth[OF assms(1)] c_def)
qed

lemma d_sizes_strict:
  assumes "d_sizes r K = Inr ds" "fst r < snd r" "i < j" "j < nat K"
  shows "ds ! j < ds ! i"
proof -
  define c where "c = (real_of_int (fst r) - real_of_int (snd r)) / real (nat K - 1)"
  have "1 < nat K" using assms(3,4) by simp
  then have "c < 0" using assms(2) by (simp add: c_def divide_neg_pos)
  then have "real j * c < real i * c"
    using assms(3) by simp
  then show ?thesis
    using assms(3,4) by (simp add: d_sizes_nth[OF assms(1)] c_def)
qed

text \<open>
  Claim C6. When fragmentation from the smallest class is not allowed (\<open>loss\<close> is
  false), the rate of class \<open>K - 1\<close> in the model is exactly zero whatever the power law
  gave, and the rates of all other classes are the ones of the power law. Compared with
  the model built with \<open>loss\<close> true, nothing but that one rate differs. For a range
  with minimum exponent at most the maximum exponent, class \<open>K - 1\<close> is a class of
  smallest diameter.
\<close>

theorem terminal_sink:
  assumes "fragmentmnp K r kb th n0 False = Inr m" "1 \<le> K"
  shows "length (k_frag m) = nat K \<and>
         k_frag m ! (nat K - 1) = 0 \<and>
         (\<forall>k<nat K - 1. k_frag m ! k = k_frag_law kb th (psd m) ! k) \<and>
         (\<forall>m'. fragmentmnp K r kb th n0 True = Inr m' \<longrightarrow>
            psd m = psd m' \<and> n_0 m = n_0 m' \<and> fsd m = fsd m' \<and>
            k_frag m = (k_frag m')[nat K - 1 := 0]) \<and>
         (fst r \<le> snd r \<longrightarrow> (\<forall>k<nat K. psd m ! (nat K - 1) \<le> psd m ! k))"
proof -
  note flds = fragmentmnp_fields[OF assms]
  have kf: "k_frag m = (k_frag_law kb th (psd m))[nat K - 1 := 0]"
    using flds(2) by simp
  have len: "length (k_frag_law kb th (psd m)) = nat K"
    by (simp add: length_k_frag_law flds(5))
  have last: "k_frag m ! (nat K - 1) = 0"
    using assms(2) len by (simp add: kf)
  have rest: "\<forall>k<nat K - 1. k_frag m ! k = k_frag_law kb th (psd m) ! k"
    by (simp add: kf)
  have frame: "psd m = psd m' \<and> n_0 m = n_0 m' \<and> fsd m = fsd m' \<and>
            k_frag m = (k_frag m')[nat K - 1 := 0]"
    if "fragmentmnp K r kb th n0 True = Inr m'" for m'
  proof -
    note flds' = fragmentmnp_fields[OF that assms(2)]
    have "psd m = psd m'" using flds(1) flds'(1) by simp
    then show ?thesis using flds(3,4) flds'(2,3,4) kf by simp
  qed
  have smallest: "psd m ! (nat K - 1) \<le> psd m ! k" if "fst r \<le> snd r" "k < nat K" for k
    using d_sizes_antimono[OF flds(1) that(1), of k "nat K - 1"] that(2) by simp
  show ?thesis using flds(6) last rest frame smallest by blast
qed

theorem terminal_sink_witness:
  "fragmentmnp 2 (- 9, - 3) (1 / 100) (1 / 2) 42 False =
     Inr \<lparr>psd = [10 powr (- 3), 10 powr (- 9)],
          k_frag = (k_frag_law (1 / 100) (1 / 2) [10 powr (- 3), 10 powr (- 9)])[1 := 0],
          n_0 = [42, 42], fsd = [[0, 1], [0, 0]]\<rparr> \<and>
   (1::int) \<le> 2 \<and>
   fragmentmnp 2 (- 9, - 3) (1 / 100) (1 / 2) 42 True =
     Inr \<lparr>psd = [10 powr (- 3), 10 powr (- 9)],
          k_frag = k_frag_law (1 / 100) (1 / 2) [10 powr (- 3), 10 powr (- 9)],
          n_0 = [42, 42], fsd = [[0, 1], [0, 0]]\<rparr> \<and>
   fst (- 9 :: int, - 3 :: int) \<le> snd (- 9 :: int, - 3 :: int) \<and>
   (k_frag_law (1 / 100) (1 / 2) [10 powr (- 3), 10 powr (- 9)])[1 := 0] ! 1 = 0 \<and>
   (k_frag_law (1 / 100) (1 / 2) [10 powr (- 3), 10 powr (- 9)])[1 := 0] ! 0
      = k_frag_law (1 / 100) (1 / 2) [10 powr (- 3), 10 powr (- 9)] ! 0 \<and>
   (10 powr (- 9) :: real) \<le> 10 powr (- 3)"
proof -
  let ?ds = "[10 powr (- 3), 10 powr (- 9 :: real)]"
  let ?m = "\<lparr>psd = ?ds, k_frag = (k_frag_law (1 / 100) (1 / 2) ?ds)[1 := 0],
          n_0 = [42, 42], fsd = [[0, 1], [0, 0]]\<rparr>"
  let ?m' = "\<lparr>psd = ?ds, k_frag = k_frag_law (1 / 100) (1 / 2) ?ds,
          n_0 = [42, 42], fsd = [[0, 1], [0, 0]]\<rparr>"
  have built: "fragmentmnp 2 (- 9, - 3) (1 / 100) (1 / 2) 42 False = Inr ?m"
    using model_K2[of "- 9" "- 3" "1 / 100" "1 / 2" 42 False] by simp
  have built': "fragmentmnp 2 (- 9, - 3) (1 / 100) (1 / 2) 42 True = Inr ?m'"
    using model_K2[of "- 9" "- 3" "1 / 100" "1 / 2" 42 True] by simp
  have h: "(1::int) \<le> 2" by simp
  have r: "fst (- 9 :: int, - 3 :: int) \<le> snd (- 9 :: int, - 3 :: int)" by simp
  note sink = terminal_sink[OF built h]
  have "k_frag ?m ! (nat 2 - 1) = 0" using sink by blast
  then have a: "(k_frag_law (1 / 100) (1 / 2) ?ds)[1 := 0] ! 1 = 0" by simp
  have "\<forall>k<nat 2 - 1. k_frag ?m ! k = k_frag_law (1 / 100) (1 / 2) (psd ?m) ! k"
    using sink by blast
  then have b: "(k_frag_law (1 / 100) (1 / 2) ?ds)[1 := 0] ! 0 = k_frag_law (1 / 100) (1 / 2) ?ds ! 0"
    by simp
  have "\<forall>k<nat 2. psd ?m ! (nat 2 - 1) \<le> psd ?m ! k" using sink r by blast
  then have c: "(10 powr (- 9) :: real) \<le> 10 powr (- 3)"
    by (simp add: numeral_2_eq_2)
  show ?thesis using built built' h r a b c by simp
qed

section \<open>The right-hand side and the dissolution term\<close>

lemma f_K1: "f \<lparr>psd = ds, k_frag = [a], n_0 = ns, fsd = [[0]]\<rparr> t [x] = Inr [- a * x]"
  by (simp add: f_def dndt_k_def getitem_def column_def np_mul_def)

text \<open>
  Claim C1, as amended. For the model built for \<open>K \<ge> 1\<close> classes and a state \<open>n\<close> of
  length \<open>K\<close>, the right-hand side returns for every class \<open>k\<close>
  \<open>- k_frag[k] * n[k] + (\<Sum>i. fsd[i][k] * k_frag[i] * n[i])\<close>. This is the
  specification's equation with all dissolution rates zero: the source has no
  dissolution term.
\<close>

theorem rhs_without_dissolution:
  assumes "fragmentmnp K r kb th n0 loss = Inr m" "1 \<le> K" "length n = nat K"
  shows "\<exists>dndt. f m t n = Inr dndt \<and> length dndt = nat K \<and>
     (\<forall>k<nat K.
        dndt ! k = - k_frag m ! k * n ! k + (\<Sum>i = 0..<nat K. fsd m ! i ! k * k_frag m ! i * n ! i) \<and>
        dndt ! k = rhs_spec (k_frag m) (replicate (nat K) 0) (fsd m) n k)"
proof -
  note flds = fragmentmnp_fields[OF assms(1,2)]
  define dndt where "dndt = map (\<lambda>k. - k_frag m ! k * n ! k
            + (\<Sum>i = 0..<nat K. fsd m ! i ! k * k_frag m ! i * n ! i)) [0..<nat K]"
  have lenM: "length (fsd m) = nat K" by (simp add: flds(4))
  have run: "f m t n = Inr dndt"
    unfolding dndt_def by (rule f_eq[OF flds(6) lenM assms(3)])
  have entry: "dndt ! k = - k_frag m ! k * n ! k
      + (\<Sum>i = 0..<nat K. fsd m ! i ! k * k_frag m ! i * n ! i)" if "k < nat K" for k
    using that by (simp add: dndt_def)
  have spec: "dndt ! k = rhs_spec (k_frag m) (replicate (nat K) 0) (fsd m) n k" if "k < nat K" for k
    using that entry[OF that] by (simp add: rhs_spec_def assms(3))
  have "length dndt = nat K" by (simp add: dndt_def)
  with run entry spec show ?thesis by blast
qed

theorem rhs_without_dissolution_witness:
  "fragmentmnp 1 (- 9, - 3) (1 / 100) 0 42 True =
     Inr \<lparr>psd = [10 powr (- 3)], k_frag = [1 / 100], n_0 = [42], fsd = [[0]]\<rparr> \<and>
   (1::int) \<le> 1 \<and> length [42 :: real] = nat 1 \<and>
   (\<exists>dndt. f \<lparr>psd = [10 powr (- 3)], k_frag = [1 / 100], n_0 = [42], fsd = [[0]]\<rparr> 0 [42]
        = Inr dndt \<and> length dndt = 1 \<and> dndt ! 0 = - (42 / 100) \<and>
      dndt ! 0 = rhs_spec [1 / 100] [0] [[0]] [42] 0)"
proof -
  let ?m = "\<lparr>psd = [10 powr (- 3 :: real)], k_frag = [1 / 100], n_0 = [42], fsd = [[0]]\<rparr>"
  have built: "fragmentmnp 1 (- 9, - 3) (1 / 100) 0 42 True = Inr ?m"
    using model_K1[of "- 9" "- 3" "1 / 100" 0 42 True] by simp
  have h2: "(1::int) \<le> 1" by simp
  have h3: "length [42 :: real] = nat 1" by simp
  from rhs_without_dissolution[OF built h2 h3, of 0]
  show ?thesis using built by simp
qed

text \<open>
  Claim C1, as stated, fails: with a dissolution rate of \<open>1 / 2000\<close> for the single class
  of the model built for \<open>K = 1\<close>, the specification's equation gives
  \<open>- 42 / 100 - 42 / 2000\<close> at the state \<open>[42]\<close>, and \<open>f\<close> returns \<open>- 42 / 100\<close>.
\<close>

theorem rhs_dissolution_counterexample:
  "fragmentmnp 1 (- 9, - 3) (1 / 100) 0 42 True =
     Inr \<lparr>psd = [10 powr (- 3)], k_frag = [1 / 100], n_0 = [42], fsd = [[0]]\<rparr> \<and>
   f \<lparr>psd = [10 powr (- 3)], k_frag = [1 / 100], n_0 = [42], fsd = [[0]]\<rparr> 0 [42]
     = Inr [- (42 / 100)] \<and>
   rhs_spec [1 / 100] [1 / 2000] [[0]] [42] 0 = - (42 / 100) - 42 / 2000 \<and>
   [- (42 / 100)] ! 0 \<noteq> rhs_spec [1 / 100] [1 / 2000] [[0]] [42] 0"
proof -
  have "fragmentmnp 1 (- 9, - 3) (1 / 100) 0 42 True =
     Inr \<lparr>psd = [10 powr (- 3)], k_frag = [1 / 100], n_0 = [42], fsd = [[0]]\<rparr>"
    using model_K1[of "- 9" "- 3" "1 / 100" 0 42 True] by simp
  moreover have "f \<lparr>psd = [10 powr (- 3)], k_frag = [1 / 100], n_0 = [42], fsd = [[0]]\<rparr> 0 [42]
     = Inr [- (42 / 100)]"
    by (simp add: f_K1)
  moreover have "rhs_spec [1 / 100] [1 / 2000] [[0]] [42] 0 = - (42 / 100) - 42 / 2000"
    by (simp add: rhs_spec_def)
  ultimately show ?thesis by simp
qed

section \<open>Outcomes of the construction\<close>

lemma fragmentmnp_neg: "K < 0 \<Longrightarrow> fragmentmnp K r kb th n0 loss = Inl ValueError"
  by (simp add: fragmentmnp_def d_sizes_neg)

lemma d_sizes_0: "d_sizes r 0 = Inr []"
  by (simp add: d_sizes_def logspace_eq)

lemma fsd_matrix_0: "fsd_matrix 0 = Inr []"
  by (simp add: fsd_matrix_eq)

lemma fragmentmnp_0:
  "fragmentmnp 0 r kb th n0 loss =
     (if loss then Inr \<lparr>psd = [], k_frag = [], n_0 = [], fsd = []\<rparr> else Inl IndexError)"
  by (simp add: fragmentmnp_def d_sizes_0 k_frag_law_def median_Nil setitem_Nil fsd_matrix_0)

text \<open>
  Claim C7, as amended. The construction validates nothing and never fails with
  \<open>ConfigurationError\<close>. It fails exactly for \<open>K < 0\<close>, with the \<open>ValueError\<close> of
  \<^verbatim>\<open>np.logspace\<close>, and for \<open>K = 0\<close> when the smallest class is a sink, with the
  \<open>IndexError\<close> of \<^verbatim>\<open>k_frag[K-1] = 0.0\<close>. For every \<open>K \<ge> 1\<close> and every pair of
  exponents, ordered or not, it succeeds and returns arrays of length \<open>K\<close>. The
  integration is not part of the construction.
\<close>

theorem construction_outcomes:
  "(fragmentmnp K r kb th n0 loss = Inl e \<longleftrightarrow>
      K < 0 \<and> e = ValueError \<or> K = 0 \<and> \<not> loss \<and> e = IndexError) \<and>
   fragmentmnp K r kb th n0 loss \<noteq> Inl ConfigurationError \<and>
   (1 \<le> K \<longrightarrow> (\<exists>m. fragmentmnp K r kb th n0 loss = Inr m \<and> length (psd m) = nat K \<and>
       length (k_frag m) = nat K \<and> length (n_0 m) = nat K \<and> length (fsd m) = nat K))"
proof -
  consider "K < 0" | "K = 0" | "1 \<le> K" by linarith
  then show ?thesis
  proof cases
    case 1
    then show ?thesis by (auto simp: fragmentmnp_neg)
  next
    case 2
    then show ?thesis by (auto simp: fragmentmnp_0)
  next
    case 3
    obtain ds where ds: "d_sizes r K = Inr ds" using 3 d_sizes_ex[of K r] by auto
    from fragmentmnp_Inr[OF 3 ds, of kb th n0 loss] obtain m where
      m: "fragmentmnp K r kb th n0 loss = Inr m" by blast
    note flds = fragmentmnp_fields[OF m 3]
    have "length (n_0 m) = nat K" "length (fsd m) = nat K"
      by (simp_all add: flds(3,4))
    with m flds(5,6) 3 show ?thesis by auto
  qed
qed

theorem construction_outcomes_witness:
  "(1::int) \<le> 3 \<and>
   (\<exists>m. fragmentmnp 3 (- 9, - 3) (1 / 100) 0 42 True = Inr m \<and> length (psd m) = 3 \<and>
       length (k_frag m) = 3 \<and> length (n_0 m) = 3 \<and> length (fsd m) = 3) \<and>
   fragmentmnp (- 1) (- 9, - 3) (1 / 100) 0 42 True = Inl ValueError \<and>
   fragmentmnp 0 (- 9, - 3) (1 / 100) 0 42 False = Inl IndexError"
proof -
  have h: "(1::int) \<le> 3" by simp
  have "\<exists>m. fragmentmnp 3 (- 9, - 3) (1 / 100) 0 42 True = Inr m \<and> length (psd m) = nat 3 \<and>
       length (k_frag m) = nat 3 \<and> length (n_0 m) = nat 3 \<and> length (fsd m) = nat 3"
    using construction_outcomes[of 3 "(- 9, - 3)" "1 / 100" 0 42 True] h by blast
  moreover have "fragmentmnp (- 1) (- 9, - 3) (1 / 100) 0 42 True = Inl ValueError"
    using construction_outcomes[of "- 1" "(- 9, - 3)" "1 / 100" 0 42 True ValueError] by simp
  moreover have "fragmentmnp 0 (- 9, - 3) (1 / 100) 0 42 False = Inl IndexError"
    using construction_outcomes[of 0 "(- 9, - 3)" "1 / 100" 0 42 False IndexError] by simp
  ultimately show ?thesis using h by simp
qed

text \<open>
  Claim C7, as stated, fails: for a range whose minimum exponent equals its maximum
  exponent (the range slider allows it) the construction succeeds, with two classes of
  the same diameter.
\<close>

theorem no_configuration_error_counterexample:
  "fst (- 3 :: int, - 3 :: int) \<ge> snd (- 3 :: int, - 3 :: int) \<and>
   fragmentmnp 2 (- 3, - 3) (1 / 100) 0 42 True =
     Inr \<lparr>psd = [10 powr (- 3), 10 powr (- 3)], k_frag = [1 / 100, 1 / 100], n_0 = [42, 42],
          fsd = [[0, 1], [0, 0]]\<rparr> \<and>
   fragmentmnp 2 (- 3, - 3) (1 / 100) 0 42 True \<noteq> Inl ConfigurationError"
proof -
  have "fragmentmnp 2 (- 3, - 3) (1 / 100) 0 42 True =
     Inr \<lparr>psd = [10 powr (- 3), 10 powr (- 3)], k_frag = [1 / 100, 1 / 100], n_0 = [42, 42],
          fsd = [[0, 1], [0, 0]]\<rparr>"
    using model_K2[of "- 3" "- 3" "1 / 100" 0 42 True] by (simp add: k_frag_law_theta0_2)
  then show ?thesis by simp
qed

section \<open>The size classes\<close>

text \<open>
  Claim C8, as amended. For a range with minimum exponent strictly below the maximum
  exponent and \<open>K \<ge> 1\<close>, the size classes are exactly \<open>K\<close> diameters, strictly
  decreasing, each the previous one times the constant factor
  \<open>10 powr ((min - max) / (K - 1))\<close>, starting at \<open>10 powr max\<close>. For \<open>K \<ge> 2\<close> the last
  one is \<open>10 powr min\<close>, so that both ends of the range are among them; for \<open>K = 1\<close> the
  only diameter is the upper end \<open>10 powr max\<close>.
\<close>

theorem d_sizes_geometric:
  assumes "fst r < snd r" "1 \<le> K"
  shows "\<exists>ds. d_sizes r K = Inr ds \<and> length ds = nat K \<and>
    (\<forall>i j. i < j \<and> j < nat K \<longrightarrow> ds ! j < ds ! i) \<and>
    (\<forall>i. i + 1 < nat K \<longrightarrow>
       ds ! (i + 1) = ds ! i * 10 powr ((real_of_int (fst r) - real_of_int (snd r)) / real (nat K - 1))) \<and>
    ds ! 0 = 10 powr real_of_int (snd r) \<and>
    (2 \<le> K \<longrightarrow> ds ! (nat K - 1) = 10 powr real_of_int (fst r)) \<and>
    (K = 1 \<longrightarrow> ds = [10 powr real_of_int (snd r)])"
proof -
  obtain ds where ds: "d_sizes r K = Inr ds"
    using assms(2) d_sizes_ex[of K r] by auto
  have len: "length ds = nat K" by (rule d_sizes_length[OF ds])
  have decreasing: "ds ! j < ds ! i" if "i < j \<and> j < nat K" for i j
    using d_sizes_strict[OF ds assms(1), of i j] that by simp
  have ratio: "ds ! (i + 1)
      = ds ! i * 10 powr ((real_of_int (fst r) - real_of_int (snd r)) / real (nat K - 1))"
    if "i + 1 < nat K" for i
  proof -
    define c where "c = (real_of_int (fst r) - real_of_int (snd r)) / real (nat K - 1)"
    have "real_of_int (snd r) + real (i + 1) * c = (real_of_int (snd r) + real i * c) + c"
      by (simp add: algebra_simps)
    then have "10 powr (real_of_int (snd r) + real (i + 1) * c)
        = 10 powr (real_of_int (snd r) + real i * c) * 10 powr c"
      by (simp only: powr_add)
    moreover have "ds ! (i + 1) = 10 powr (real_of_int (snd r) + real (i + 1) * c)"
      using that d_sizes_nth[OF ds, of "i + 1"] by (simp only: c_def)
    moreover have "ds ! i = 10 powr (real_of_int (snd r) + real i * c)"
      using that d_sizes_nth[OF ds, of i] by (simp add: c_def)
    ultimately show ?thesis by (simp add: c_def)
  qed
  have first: "ds ! 0 = 10 powr real_of_int (snd r)"
    using assms(2) by (simp add: d_sizes_nth[OF ds])
  have last: "ds ! (nat K - 1) = 10 powr real_of_int (fst r)" if "2 \<le> K"
  proof -
    have "real (nat K - 1) \<noteq> 0" using that by simp
    then have "real (nat K - 1) * ((real_of_int (fst r) - real_of_int (snd r)) / real (nat K - 1))
        = real_of_int (fst r) - real_of_int (snd r)"
      by simp
    then show ?thesis
      using that by (simp add: d_sizes_nth[OF ds])
  qed
  have single: "ds = [10 powr real_of_int (snd r)]" if "K = 1"
    using ds that by (cases r) (simp add: d_sizes_1)
  show ?thesis
    using ds len decreasing ratio first last single by blast
qed

theorem d_sizes_geometric_witness:
  "fst (- 9 :: int, - 3 :: int) < snd (- 9 :: int, - 3 :: int) \<and> (1::int) \<le> 3 \<and>
   d_sizes (- 9, - 3) 3 = Inr [10 powr (- 3), 10 powr (- 6), 10 powr (- 9)] \<and>
   (10 powr (- 9) :: real) < 10 powr (- 6) \<and> (10 powr (- 6) :: real) < 10 powr (- 3) \<and>
   (10 powr (- 6) :: real) = 10 powr (- 3) * 10 powr (- 3) \<and>
   (10 powr (- 9) :: real) = 10 powr (- 6) * 10 powr (- 3)"
proof -
  have h1: "fst (- 9 :: int, - 3 :: int) < snd (- 9 :: int, - 3 :: int)" by simp
  have h2: "(1::int) \<le> 3" by simp
  have built: "d_sizes (- 9, - 3) 3 = Inr [10 powr (- 3), 10 powr (- 6), 10 powr (- 9)]"
    using d_sizes_3[of "- 9" "- 3"] by simp
  from d_sizes_geometric[OF h1 h2] built
  have mono: "\<forall>i j. i < j \<and> j < nat 3 \<longrightarrow>
         [10 powr (- 3), 10 powr (- 6), 10 powr (- 9 :: real)] ! j
           < [10 powr (- 3), 10 powr (- 6), 10 powr (- 9)] ! i"
    and geo: "\<forall>i. i + 1 < nat 3 \<longrightarrow>
         [10 powr (- 3), 10 powr (- 6), 10 powr (- 9 :: real)] ! (i + 1)
           = [10 powr (- 3), 10 powr (- 6), 10 powr (- 9)] ! i
             * 10 powr ((real_of_int (fst (- 9 :: int, - 3 :: int))
                 - real_of_int (snd (- 9 :: int, - 3 :: int))) / real (nat 3 - 1))"
    by auto
  have "(10 powr (- 9) :: real) < 10 powr (- 6)" using mono[rule_format, of 1 2] by simp
  moreover have "(10 powr (- 6) :: real) < 10 powr (- 3)" using mono[rule_format, of 0 1] by simp
  moreover have "(10 powr (- 6) :: real) = 10 powr (- 3) * 10 powr (- 3)"
    using geo[rule_format, of 0] by simp
  moreover have "(10 powr (- 9) :: real) = 10 powr (- 6) * 10 powr (- 3)"
    using geo[rule_format, of 1] by simp
  ultimately show ?thesis using h1 h2 built by simp
qed

text \<open>
  Claim C8, as stated, fails for \<open>K = 1\<close>: the single diameter is the upper end of the
  range, and the lower end is not among the size classes.
\<close>

theorem d_sizes_endpoint_counterexample:
  "fst (- 9 :: int, - 3 :: int) < snd (- 9 :: int, - 3 :: int) \<and>
   d_sizes (- 9, - 3) 1 = Inr [10 powr (- 3)] \<and>
   (10 powr real_of_int (fst (- 9 :: int, - 3 :: int)) :: real) \<notin> set [10 powr (- 3)]"
proof -
  have "(10 powr (- 9) :: real) < 10 powr (- 3)" by simp
  then have "(10 powr (- 9) :: real) \<noteq> 10 powr (- 3)" by (rule less_imp_neq)
  then show ?thesis using d_sizes_1[of "- 9" "- 3"] by simp
qed

section \<open>The total concentration along a trajectory\<close>

lemma constant_on_span:
  fixes g :: "real \<Rightarrow> real"
  assumes "\<And>s. s \<in> {0..T} \<Longrightarrow> (g has_real_derivative 0) (at s within {0..T})"
    and "t \<in> {0..T}"
  shows "g t = g 0"
proof (cases "0 < T")
  case True
  have cont: "continuous_on {0..T} g"
    unfolding continuous_on_eq_continuous_within
    using assms(1) by (blast intro: DERIV_continuous)
  have inner: "DERIV g s :> 0" if "0 < s" "s < T" for s
  proof -
    have "(g has_real_derivative 0) (at s within {0..T})"
      using that by (intro assms(1)) simp
    then show ?thesis using that by (simp add: at_within_Icc_at)
  qed
  show ?thesis
    using DERIV_isconst2[OF True cont inner, of t] assms(2) by simp
next
  case False
  then have "t = 0" using assms(2) by simp
  then show ?thesis by simp
qed

lemma total_constant:
  assumes m: "fragmentmnp K r kb th n0 loss = Inr m" and K: "1 \<le> K"
    and sink: "k_frag m ! (nat K - 1) = 0"
    and sol: "ivp_solution m T y" and t: "t \<in> {0..T}"
  shows "sum_list (y t) = sum_list (n_0 m)"
proof -
  note flds = fragmentmnp_fields[OF m K]
  have lenn: "length (n_0 m) = nat K" by (simp add: flds(3))
  define g where "g s = (\<Sum>k = 0..<nat K. y s ! k)" for s
  have step: "\<exists>dndt. f m s (y s) = Inr dndt \<and> length (y s) = nat K \<and>
        (\<forall>k<nat K. ((\<lambda>u. y u ! k) has_real_derivative dndt ! k) (at s within {0..T}))"
    if "s \<in> {0..T}" for s
    using sol that unfolding ivp_solution_def lenn by blast
  have total: "sum_list (y s) = g s" if "s \<in> {0..T}" for s
  proof -
    have "length (y s) = nat K" using step[OF that] by blast
    then show ?thesis by (simp add: g_def sum_list_sum_nth)
  qed
  have deriv: "(g has_real_derivative 0) (at s within {0..T})" if "s \<in> {0..T}" for s
  proof -
    from step[OF that] obtain dndt where
      run: "f m s (y s) = Inr dndt" and len: "length (y s) = nat K"
      and d: "\<forall>k<nat K. ((\<lambda>u. y u ! k) has_real_derivative dndt ! k) (at s within {0..T})"
      by blast
    have dndt: "dndt = map (\<lambda>k. - k_frag m ! k * y s ! k
            + (\<Sum>i = 0..<nat K. (if i < k then 1 / real (nat K - i - 1) else 0) * k_frag m ! i * y s ! i))
          [0..<nat K]"
      using f_model[OF m K len, of s] run by simp
    have K': "1 \<le> nat K" using K by simp
    have "length dndt = nat K" by (simp add: dndt)
    then have "(\<Sum>k = 0..<nat K. dndt ! k) = sum_list dndt"
      by (simp add: sum_list_sum_nth)
    also have "\<dots> = (\<Sum>k = 0..<nat K. - k_frag m ! k * y s ! k
            + (\<Sum>i = 0..<nat K. (if i < k then 1 / real (nat K - i - 1) else 0) * k_frag m ! i * y s ! i))"
      unfolding dndt by (simp add: interv_sum_list_conv_sum_set_nat)
    also have "\<dots> = - k_frag m ! (nat K - 1) * y s ! (nat K - 1)"
      by (rule total_rhs[OF K'])
    finally have zero: "(\<Sum>k = 0..<nat K. dndt ! k) = 0" using sink by simp
    have "((\<lambda>u. \<Sum>k = 0..<nat K. y u ! k) has_real_derivative (\<Sum>k = 0..<nat K. dndt ! k))
        (at s within {0..T})"
      using d by (intro DERIV_sum) simp
    then show ?thesis using zero by (simp add: g_def[abs_def])
  qed
  have "g t = g 0" by (rule constant_on_span[OF deriv t])
  moreover have "y 0 = n_0 m" using sol by (simp add: ivp_solution_def)
  moreover have "0 \<in> {0..T}" using t by simp
  ultimately show ?thesis using total[OF t] total[of 0] by simp
qed


lemma ivp_solutionI1:
  assumes "n_0 m = [a 0]"
    and "\<And>t. t \<in> {0..T} \<Longrightarrow> f m t [a t] = Inr [da t]"
    and "\<And>t. (a has_real_derivative da t) (at t within {0..T})"
  shows "ivp_solution m T (\<lambda>t. [a t])"
  unfolding ivp_solution_def using assms by simp


section \<open>A single size class\<close>

text \<open>
  Claim C4, as amended. For \<open>K = 1\<close> the matrix is the \<open>1 \<times> 1\<close> zero matrix, the rate
  of the single class is \<open>k_frag_bar\<close> when fragmentation from the smallest class is
  allowed and 0 otherwise, and the derivative of the concentration \<open>x\<close> is
  \<open>- k_frag[0] * x\<close>. When fragmentation from the smallest class is not allowed, or
  \<open>k_frag_bar = 0\<close>, the concentration stays at its initial value over the whole span.
\<close>

theorem single_class:
  assumes "fragmentmnp 1 r kb th n0 loss = Inr m"
  shows "fsd m = [[0]] \<and> k_frag m = [if loss then kb else 0] \<and> n_0 m = [n0] \<and>
         (\<forall>t x. f m t [x] = Inr [- k_frag m ! 0 * x]) \<and>
         (\<not> loss \<or> kb = 0 \<longrightarrow>
            (\<forall>T y t. ivp_solution m T y \<and> t \<in> {0..T} \<longrightarrow> y t = [n0]))"
proof -
  obtain lo hi where r: "r = (lo, hi)" by (cases r)
  have m: "m = \<lparr>psd = [10 powr real_of_int hi], k_frag = [if loss then kb else 0],
        n_0 = [n0], fsd = [[0]]\<rparr>"
    using assms model_K1[of lo hi kb th n0 loss] by (simp add: r)
  have rhs: "\<forall>t x. f m t [x] = Inr [- k_frag m ! 0 * x]"
    by (simp add: m f_K1)
  have const: "y t = [n0]"
    if sink: "\<not> loss \<or> kb = 0" and sol: "ivp_solution m T y \<and> t \<in> {0..T}" for T y t
  proof -
    have K: "(1::int) \<le> 1" by simp
    have zero: "k_frag m ! (nat 1 - 1) = 0" using sink by (auto simp: m)
    have "sum_list (y t) = sum_list (n_0 m)"
      using total_constant[OF assms K zero] sol by blast
    then have total: "sum_list (y t) = n0" by (simp add: m)
    have "length (y t) = 1"
      using sol unfolding ivp_solution_def by (auto simp: m)
    then obtain x where "y t = [x]"
      by (cases "y t") simp_all
    with total show ?thesis by simp
  qed
  have shape: "fsd m = [[0]]" "k_frag m = [if loss then kb else 0]" "n_0 m = [n0]"
    by (simp_all add: m)
  show ?thesis using shape rhs const by blast
qed

theorem single_class_witness:
  "fragmentmnp 1 (- 9, - 3) (1 / 100) 0 42 False =
     Inr \<lparr>psd = [10 powr (- 3)], k_frag = [0], n_0 = [42], fsd = [[0]]\<rparr> \<and>
   fsd \<lparr>psd = [10 powr (- 3)], k_frag = [0], n_0 = [42], fsd = [[0]]\<rparr> = [[0]] \<and>
   \<not> False \<and>
   ivp_solution \<lparr>psd = [10 powr (- 3)], k_frag = [0], n_0 = [42], fsd = [[0]]\<rparr> 100
     (\<lambda>t. [42]) \<and>
   (1::real) \<in> {0..100} \<and> (\<lambda>t::real. [42::real]) 1 = [42]"
proof -
  let ?m = "\<lparr>psd = [10 powr (- 3 :: real)], k_frag = [0], n_0 = [42], fsd = [[0]]\<rparr>"
  have built: "fragmentmnp 1 (- 9, - 3) (1 / 100) 0 42 False = Inr ?m"
    using model_K1[of "- 9" "- 3" "1 / 100" 0 42 False] by simp
  have sol: "ivp_solution ?m 100 (\<lambda>t. [42])"
  proof (rule ivp_solutionI1[where da = "\<lambda>t. 0"])
    show "n_0 ?m = [42]" by simp
    show "f ?m t [42] = Inr [0]" for t by (simp add: f_K1)
    show "((\<lambda>t. 42) has_real_derivative 0) (at t within {0..100})" for t :: real by simp
  qed
  from single_class[OF built]
  have "\<not> False \<or> (1 / 100 :: real) = 0 \<longrightarrow>
      (\<forall>T y t. ivp_solution ?m T y \<and> t \<in> {0..T} \<longrightarrow> y t = [42])"
    by blast
  then have "(\<lambda>t::real. [42::real]) 1 = [42]"
    using sol by simp
  then show ?thesis using built sol by simp
qed

text \<open>
  Claim C4, as stated, fails when fragmentation from the smallest class is allowed and
  \<open>k_frag_bar > 0\<close>: for \<open>k_frag_bar = 1 / 100\<close> and initial concentration 42 the
  solution is \<open>42 * exp (- t / 100)\<close>, which is not 42 at time 1.
\<close>

theorem single_class_decay_counterexample:
  "fragmentmnp 1 (- 9, - 3) (1 / 100) 0 42 True =
     Inr \<lparr>psd = [10 powr (- 3)], k_frag = [1 / 100], n_0 = [42], fsd = [[0]]\<rparr> \<and>
   ivp_solution \<lparr>psd = [10 powr (- 3)], k_frag = [1 / 100], n_0 = [42], fsd = [[0]]\<rparr> 100
     (\<lambda>t. [42 * exp (- t / 100)]) \<and>
   (1::real) \<in> {0..100} \<and>
   [42 * exp (- 0 / 100)] = [42 :: real] \<and>
   [42 * exp (- 1 / 100)] \<noteq> [42 :: real]"
proof -
  let ?m = "\<lparr>psd = [10 powr (- 3 :: real)], k_frag = [1 / 100], n_0 = [42], fsd = [[0]]\<rparr>"
  have built: "fragmentmnp 1 (- 9, - 3) (1 / 100) 0 42 True = Inr ?m"
    using model_K1[of "- 9" "- 3" "1 / 100" 0 42 True] by simp
  have sol: "ivp_solution ?m 100 (\<lambda>t. [42 * exp (- t / 100)])"
  proof (rule ivp_solutionI1[where da = "\<lambda>t. - (1 / 100) * (42 * exp (- t / 100))"])
    show "n_0 ?m = [42 * exp (- 0 / 100)]" by simp
    show "f ?m t [42 * exp (- t / 100)] = Inr [- (1 / 100) * (42 * exp (- t / 100))]" for t
      by (simp add: f_K1)
    show "((\<lambda>t. 42 * exp (- t / 100)) has_real_derivative - (1 / 100) * (42 * exp (- t / 100)))
        (at t within {0..100})" for t
      by (auto intro!: derivative_eq_intros)
  qed
  show ?thesis using built sol by simp
qed

section \<open>Double precision: rounding\<close>

lemma round_even_error: "\<bar>of_int (round_even x) - x\<bar> \<le> 1 / 2"
  unfolding round_even_def Let_def by (auto simp: abs_if) linarith+

lemma round_even_of_int [simp]: "round_even (of_int z) = z"
  by (simp add: round_even_def)

lemma fl_0 [simp]: "fl 0 = 0"
  by (simp add: fl_def)

lemma fl_eval:
  assumes "2 powr of_int e \<le> \<bar>x\<bar>" "\<bar>x\<bar> < 2 powr of_int (e + 1)"
  shows "fl x = of_int (round_even (x / 2 powr of_int (e - 52))) * 2 powr of_int (e - 52)"
proof -
  have "(0::real) < 2 powr of_int e" by simp
  then have pos: "0 < \<bar>x\<bar>" using assms(1) by linarith
  have "\<lfloor>log 2 \<bar>x\<bar>\<rfloor> = e"
    using assms pos by (simp add: floor_log_eq_powr_iff)
  then show ?thesis using pos by (simp add: fl_def)
qed

lemma fl_error: "\<bar>fl x - x\<bar> \<le> \<bar>x\<bar> / 2 ^ 53"
proof (cases "x = 0")
  case True
  then show ?thesis by simp
next
  case False
  define e where "e = \<lfloor>log 2 \<bar>x\<bar>\<rfloor> - 52"
  define s :: real where "s = 2 powr of_int e"
  have s: "0 < s" by (simp add: s_def)
  have flx: "fl x = of_int (round_even (x / s)) * s"
    using False by (simp add: fl_def e_def s_def)
  have "fl x - x = (of_int (round_even (x / s)) - x / s) * s"
    using s by (simp add: flx field_simps)
  then have "\<bar>fl x - x\<bar> = \<bar>of_int (round_even (x / s)) - x / s\<bar> * s"
    using s by (simp add: abs_mult)
  also have "\<dots> \<le> 1 / 2 * s"
    using round_even_error[of "x / s"] s by (intro mult_right_mono) simp_all
  also have "s \<le> \<bar>x\<bar> / 2 ^ 52"
  proof -
    have "of_int \<lfloor>log 2 \<bar>x\<bar>\<rfloor> \<le> log 2 \<bar>x\<bar>" by simp
    then have "2 powr of_int \<lfloor>log 2 \<bar>x\<bar>\<rfloor> \<le> 2 powr log 2 \<bar>x\<bar>"
      by (simp only: powr_le_cancel_iff) 
    also have "\<dots> = \<bar>x\<bar>" using False by simp
    finally have "2 powr of_int \<lfloor>log 2 \<bar>x\<bar>\<rfloor> \<le> \<bar>x\<bar>" .
    moreover have "s = 2 powr of_int \<lfloor>log 2 \<bar>x\<bar>\<rfloor> / 2 ^ 52"
      by (simp add: s_def e_def powr_diff powr_realpow[symmetric] del: powr_numeral)
    ultimately show ?thesis by (simp add: divide_right_mono)
  qed
  finally show ?thesis by simp
qed

lemma fl_eq_0_iff [simp]: "fl x = 0 \<longleftrightarrow> x = 0"
proof
  assume z: "fl x = 0"
  show "x = 0"
  proof (rule ccontr)
    assume "x \<noteq> 0"
    then have "\<bar>x\<bar> / 2 ^ 53 < \<bar>x\<bar>" by simp
    then show False using fl_error[of x] z by simp
  qed
qed simp

lemma fl_lower:
  assumes "0 \<le> x"
  shows "x * (1 - 1 / 2 ^ 53) \<le> fl x"
proof -
  have "\<bar>fl x - x\<bar> \<le> x / 2 ^ 53" using fl_error[of x] assms by simp
  then have "x - x / 2 ^ 53 \<le> fl x" by linarith
  then show ?thesis by (simp only: right_diff_distrib mult_1_right times_divide_eq_right)
qed

lemma fl_upper:
  assumes "0 \<le> x"
  shows "fl x \<le> x * (1 + 1 / 2 ^ 53)"
proof -
  have "\<bar>fl x - x\<bar> \<le> x / 2 ^ 53" using fl_error[of x] assms by simp
  then have "fl x \<le> x + x / 2 ^ 53" by linarith
  then show ?thesis by (simp only: distrib_left mult_1_right times_divide_eq_right)
qed

lemma fl_pos: "0 < x \<Longrightarrow> 0 < fl x"
proof -
  assume x: "0 < x"
  have "0 < x * (1 - 1 / 2 ^ 53)" using x by simp
  then show ?thesis using fl_lower[of x] x by linarith
qed

lemma fl_exact:
  assumes "\<bar>m\<bar> < 2 ^ 53"
  shows "fl (of_int m * 2 powr of_int k) = of_int m * 2 powr of_int k"
proof (cases "m = 0")
  case True
  then show ?thesis by simp
next
  case False
  define x :: real where "x = of_int m * 2 powr of_int k"
  have x0: "x \<noteq> 0" using False by (simp add: x_def)
  define e where "e = \<lfloor>log 2 \<bar>x\<bar>\<rfloor> - 52"
  have absx: "\<bar>x\<bar> = of_int \<bar>m\<bar> * 2 powr of_int k" by (simp add: x_def abs_mult)
  have "\<bar>x\<bar> < 2 ^ 53 * 2 powr of_int k"
  proof -
    have "(of_int \<bar>m\<bar> :: real) < 2 ^ 53" using assms by (metis of_int_less_iff of_int_numeral of_int_power)
    then show ?thesis unfolding absx by (intro mult_strict_right_mono) simp_all
  qed
  also have "\<dots> = 2 powr of_int (k + 53)"
    by (simp add: powr_add powr_realpow[symmetric] del: powr_numeral)
  finally have "log 2 \<bar>x\<bar> < of_int (k + 53)"
    using x0 by (simp add: log_less_iff del: of_int_add)
  then have "\<lfloor>log 2 \<bar>x\<bar>\<rfloor> < k + 53" by (simp add: floor_less_iff del: of_int_add)
  then have ek: "e \<le> k" by (simp add: e_def)
  define j where "j = nat (k - e)"
  have kj: "k = e + int j" using ek by (simp add: j_def)
  have "x / 2 powr of_int e = of_int m * 2 powr of_int (int j)"
    by (simp add: x_def kj powr_add)
  also have "\<dots> = of_int (m * 2 ^ j)"
    by (simp add: powr_realpow)
  finally have "round_even (x / 2 powr of_int e) = m * 2 ^ j"
    by (simp only: round_even_of_int)
  then have "fl x = of_int (m * 2 ^ j) * 2 powr of_int e"
    using x0 by (simp add: fl_def e_def)
  also have "\<dots> = x"
    by (simp add: x_def kj powr_add powr_realpow)
  finally show ?thesis by (simp add: x_def)
qed

lemma fl_of_int: "\<bar>m\<bar> < 2 ^ 53 \<Longrightarrow> fl (of_int m) = of_int m"
  using fl_exact[of m 0] by simp

lemma fl_1 [simp]: "fl 1 = 1"
  using fl_of_int[of 1] by simp

lemma approx_refl: "approx j x x"
  by (simp add: approx_def)

lemma approx_fl:
  assumes "approx j x x'"
  shows "approx (Suc j) x (fl x')"
proof -
  define U :: real where "U = 1 + 1 / 2 ^ 53"
  define g where "g = U ^ j - 1"
  have U: "1 \<le> U" by (simp add: U_def)
  have g0: "0 \<le> g" using U by (simp add: g_def)
  have a: "\<bar>x' - x\<bar> \<le> g * \<bar>x\<bar>"
    using assms by (simp add: approx_def g_def U_def)
  have "\<bar>x'\<bar> \<le> \<bar>x\<bar> + \<bar>x' - x\<bar>" by linarith
  then have x': "\<bar>x'\<bar> \<le> (1 + g) * \<bar>x\<bar>" using a by (simp add: algebra_simps)
  have "\<bar>fl x' - x'\<bar> \<le> (U - 1) * \<bar>x'\<bar>"
    using fl_error[of x'] by (simp add: U_def)
  also have "\<dots> \<le> (U - 1) * ((1 + g) * \<bar>x\<bar>)"
    using x' U by (intro mult_left_mono) simp_all
  finally have b: "\<bar>fl x' - x'\<bar> \<le> (U - 1) * ((1 + g) * \<bar>x\<bar>)" .
  have "\<bar>fl x' - x\<bar> \<le> \<bar>fl x' - x'\<bar> + \<bar>x' - x\<bar>" by linarith
  also have "\<dots> \<le> (U - 1) * ((1 + g) * \<bar>x\<bar>) + g * \<bar>x\<bar>" using a b by linarith
  also have "\<dots> = (U ^ Suc j - 1) * \<bar>x\<bar>" by (simp add: g_def algebra_simps)
  finally show ?thesis by (simp add: approx_def U_def)
qed

lemma approx_mult:
  assumes "approx j x x'"
  shows "approx j (x * y) (x' * y)"
proof -
  have "\<bar>x' * y - x * y\<bar> = \<bar>x' - x\<bar> * \<bar>y\<bar>"
    by (simp add: abs_mult[symmetric] algebra_simps)
  also have "\<dots> \<le> ((1 + 1 / 2 ^ 53) ^ j - 1) * \<bar>x\<bar> * \<bar>y\<bar>"
    using assms unfolding approx_def by (intro mult_right_mono) simp_all
  finally show ?thesis by (simp add: approx_def abs_mult mult.assoc)
qed

lemma approx_sum:
  fixes t q :: "nat \<Rightarrow> real"
  assumes "\<And>i. i < n \<Longrightarrow> approx j (t i) (q i)"
  shows "\<bar>(\<Sum>i = 0..<n. q i) - (\<Sum>i = 0..<n. t i)\<bar>
       \<le> ((1 + 1 / 2 ^ 53) ^ j - 1) * (\<Sum>i = 0..<n. \<bar>t i\<bar>)"
proof -
  have "\<bar>(\<Sum>i = 0..<n. q i) - (\<Sum>i = 0..<n. t i)\<bar> = \<bar>\<Sum>i = 0..<n. q i - t i\<bar>"
    by (simp add: sum_subtractf)
  also have "\<dots> \<le> (\<Sum>i = 0..<n. \<bar>q i - t i\<bar>)" by (rule sum_abs)
  also have "\<dots> \<le> (\<Sum>i = 0..<n. ((1 + 1 / 2 ^ 53) ^ j - 1) * \<bar>t i\<bar>)"
    using assms by (intro sum_mono) (simp add: approx_def)
  finally show ?thesis by (simp add: sum_distrib_left)
qed

lemma approx_abs_le:
  assumes "approx j x x'"
  shows "\<bar>x'\<bar> \<le> (1 + 1 / 2 ^ 53) ^ j * \<bar>x\<bar>"
proof -
  have "\<bar>x'\<bar> \<le> \<bar>x\<bar> + \<bar>x' - x\<bar>" by linarith
  then show ?thesis using assms by (simp add: approx_def algebra_simps)
qed

lemma sum_ok_seq_sum: "sum_ok seq_sum"
  unfolding sum_ok_def
proof
  fix xs :: "real list"
  define U :: real where "U = 1 + 1 / 2 ^ 53"
  have U: "1 \<le> U" by (simp add: U_def)
  have "\<bar>seq_sum xs - sum_list xs\<bar> \<le> (U ^ length xs - 1) * sum_list (map abs xs)"
  proof (induction xs rule: rev_induct)
    case Nil
    show ?case by (simp add: seq_sum_def)
  next
    case (snoc x xs)
    define s where "s = seq_sum xs"
    define S where "S = sum_list xs"
    define A where "A = sum_list (map abs xs)"
    define g where "g = U ^ length xs - 1"
    have g0: "0 \<le> g" using U by (simp add: g_def)
    have A0: "0 \<le> A" unfolding A_def by (rule sum_list_nonneg) auto
    have SA: "\<bar>S\<bar> \<le> A" unfolding S_def A_def by (rule sum_list_abs)
    have ih: "\<bar>s - S\<bar> \<le> g * A" using snoc by (simp add: s_def S_def A_def g_def)
    have new: "seq_sum (xs @ [x]) = fl (s + x)" by (simp add: seq_sum_def s_def)
    have "\<bar>s + x\<bar> \<le> \<bar>s - S\<bar> + \<bar>S\<bar> + \<bar>x\<bar>" by linarith
    then have sx: "\<bar>s + x\<bar> \<le> (1 + g) * A + \<bar>x\<bar>" using ih SA by (simp add: algebra_simps)
    have "\<bar>fl (s + x) - (s + x)\<bar> \<le> (U - 1) * \<bar>s + x\<bar>"
      using fl_error[of "s + x"] by (simp add: U_def)
    also have "\<dots> \<le> (U - 1) * ((1 + g) * A + \<bar>x\<bar>)"
      using sx U by (intro mult_left_mono) simp_all
    finally have r: "\<bar>fl (s + x) - (s + x)\<bar> \<le> (U - 1) * ((1 + g) * A + \<bar>x\<bar>)" .
    have "\<bar>fl (s + x) - (S + x)\<bar> \<le> \<bar>fl (s + x) - (s + x)\<bar> + \<bar>s - S\<bar>" by linarith
    also have "\<dots> \<le> (U - 1) * ((1 + g) * A + \<bar>x\<bar>) + g * A" using r ih by linarith
    also have "\<dots> = (U * (1 + g) - 1) * A + (U - 1) * \<bar>x\<bar>" by (simp add: algebra_simps)
    also have "\<dots> \<le> (U * (1 + g) - 1) * A + (U * (1 + g) - 1) * \<bar>x\<bar>"
    proof -
      have "U * 1 \<le> U * (1 + g)" using U g0 by (intro mult_left_mono) simp_all
      then have "U - 1 \<le> U * (1 + g) - 1" by simp
      then have "(U - 1) * \<bar>x\<bar> \<le> (U * (1 + g) - 1) * \<bar>x\<bar>" by (intro mult_right_mono) simp_all
      then show ?thesis by simp
    qed
    also have "\<dots> = (U ^ length (xs @ [x]) - 1) * sum_list (map abs (xs @ [x]))"
      by (simp add: g_def A_def algebra_simps)
    finally show ?case by (simp add: new S_def)
  qed
  then show "\<bar>seq_sum xs - sum_list xs\<bar>
        \<le> ((1 + 1 / 2 ^ 53) ^ length xs - 1) * sum_list (map abs xs)"
    by (simp add: U_def)
qed

section \<open>The fragment size distribution matrix in double precision\<close>

lemma fsd_row_value_fl_eq:
  "k < K \<Longrightarrow> fsd_row_value_fl K k = Inr (if k + 1 < K then fl (1 / real (K - k - 1)) else 0)"
  by (auto simp: fsd_row_value_fl_def true_div_fl_def algebra_simps)

lemma fsd_fill_fl_eq:
  "\<forall>k\<in>set ks. k < K \<Longrightarrow> length M = K \<Longrightarrow>
   \<exists>M'. fsd_fill_fl K ks M = Inr M' \<and> length M' = K \<and>
     (\<forall>i<K. M' ! i = (if i \<in> set ks
        then replicate K (if i + 1 < K then fl (1 / real (K - i - 1)) else 0) else M ! i))"
proof (induction ks arbitrary: M)
  case Nil
  then show ?case by simp
next
  case (Cons k ks)
  let ?v = "if k + 1 < K then fl (1 / real (K - k - 1)) else 0"
  from Cons.prems have k: "k < K" and ks: "\<forall>k\<in>set ks. k < K" by simp_all
  have len: "length (M[k := replicate K ?v]) = K" using Cons.prems by simp
  from Cons.IH[OF ks len] obtain M' where
    M': "fsd_fill_fl K ks (M[k := replicate K ?v]) = Inr M'" "length M' = K"
    "\<forall>i<K. M' ! i = (if i \<in> set ks
        then replicate K (if i + 1 < K then fl (1 / real (K - i - 1)) else 0)
        else (M[k := replicate K ?v]) ! i)"
    by blast
  have "fsd_fill_fl K (k # ks) M = Inr M'"
    using M'(1) k by (simp add: fsd_row_value_fl_eq)
  moreover have "\<forall>i<K. M' ! i = (if i \<in> set (k # ks)
        then replicate K (if i + 1 < K then fl (1 / real (K - i - 1)) else 0) else M ! i)"
    using M'(3) Cons.prems(2) by (auto simp: nth_list_update)
  ultimately show ?case using M'(2) by blast
qed

lemma fsd_matrix_fl_eq:
  "fsd_matrix_fl K
     = Inr (map (\<lambda>i. map (\<lambda>j. if i < j then fl (1 / real (K - i - 1)) else 0) [0..<K]) [0..<K])"
proof -
  have "\<forall>k\<in>set [0..<K]. k < K" by simp
  from fsd_fill_fl_eq[OF this, of "replicate K (replicate K 0)"] obtain M' where
    M': "fsd_fill_fl K [0..<K] (replicate K (replicate K 0)) = Inr M'" "length M' = K"
    "\<forall>i<K. M' ! i = replicate K (if i + 1 < K then fl (1 / real (K - i - 1)) else 0)"
    by auto
  have "triu1 M' = map (\<lambda>i. map (\<lambda>j. if i < j then fl (1 / real (K - i - 1)) else 0) [0..<K]) [0..<K]"
    unfolding triu1_def using M'(2,3) by (auto simp: Suc_le_eq)
  then show ?thesis by (simp add: fsd_matrix_fl_def M'(1))
qed

text \<open>
  Claim C2, as amended. For every \<open>K \<ge> 1\<close> the construction of the matrix succeeds (it
  never divides by zero) and gives \<open>K\<close> rows of length \<open>K\<close>. Row \<open>i\<close> (index 0 the coarsest
  class) holds the double nearest to \<open>1 / (K - i - 1)\<close> in every column strictly finer
  than \<open>i\<close> and 0 in every other column, the diagonal and the coarser columns included.
  The entries of a row \<open>i < K - 1\<close> add up to 1 within \<open>2\<^sup>-\<^sup>5\<^sup>3\<close>, and the finest row is
  entirely zero.
\<close>

theorem fsd_even_split_rounded:
  assumes "1 \<le> K"
  shows "\<exists>M. fsd_matrix_fl K = Inr M \<and> length M = K \<and>
     (\<forall>i<K. length (M ! i) = K \<and>
        (\<forall>j<K. M ! i ! j = (if i < j then fl (1 / (real K - real i - 1)) else 0))) \<and>
     (\<forall>i<K - 1. \<bar>sum_list (M ! i) - 1\<bar> \<le> 1 / 2 ^ 53) \<and>
     (\<forall>j<K. M ! (K - 1) ! j = 0)"
proof -
  define M where
    "M = map (\<lambda>i. map (\<lambda>j. if i < j then fl (1 / real (K - i - 1)) else 0) [0..<K]) [0..<K]"
  have built: "fsd_matrix_fl K = Inr M"
    by (simp add: fsd_matrix_fl_eq M_def)
  have len: "length M = K"
    by (simp add: M_def)
  have entries: "length (M ! i) = K \<and>
      (\<forall>j<K. M ! i ! j = (if i < j then fl (1 / (real K - real i - 1)) else 0))" if "i < K" for i
  proof -
    have "real (K - i - 1) = real K - real i - 1"
      using that by (simp add: of_nat_diff)
    then have "fl (1 / real (K - i - 1)) = fl (1 / (real K - real i - 1))"
      by (simp only:)
    then show ?thesis using that by (simp add: M_def del: of_nat_diff)
  qed
  have sums: "\<bar>sum_list (M ! i) - 1\<bar> \<le> 1 / 2 ^ 53" if "i < K - 1" for i
  proof -
    define N :: real where "N = real (K - i - 1)"
    define c :: real where "c = 1 / N"
    have i: "i < K" using that by simp
    have pos: "0 < N" using that by (simp add: N_def)
    have one: "N * c = 1" using pos by (simp add: c_def)
    have "sum_list (M ! i) = N * fl c"
      using i by (simp add: M_def row_sum c_def N_def)
    then have "sum_list (M ! i) - 1 = N * (fl c - c)"
      using one by (simp only: right_diff_distrib)
    then have "\<bar>sum_list (M ! i) - 1\<bar> = N * \<bar>fl c - c\<bar>"
      using pos by (simp add: abs_mult)
    also have "\<dots> \<le> N * (\<bar>c\<bar> / 2 ^ 53)"
      using pos by (intro mult_left_mono fl_error) simp
    also have "\<dots> = 1 / 2 ^ 53"
      using pos by (simp add: c_def)
    finally show ?thesis .
  qed
  have finest: "M ! (K - 1) ! j = 0" if "j < K" for j
    using that assms by (simp add: M_def)
  show ?thesis
    using built len entries sums finest by blast
qed

lemma fl_half: "fl (1 / 2) = 1 / 2"
  using fl_exact[of 1 "- 1"] by (simp add: powr_minus_divide)

lemma fl_sixth: "fl (1 / 6) = 6004799503160661 / 2 ^ 55"
proof -
  have "fl (1 / 6) = of_int (round_even ((1 / 6) / 2 powr of_int (- 3 - 52))) * 2 powr of_int (- 3 - 52)"
    by (rule fl_eval) (simp_all add: powr_minus_divide)
  also have "(1 / 6) / 2 powr of_int (- 3 - 52) = (36028797018963968 / 6 :: real)"
    by (simp add: powr_minus_divide)
  also have "round_even (36028797018963968 / 6) = 6004799503160661"
    by (simp add: round_even_def Let_def)
  finally show ?thesis by (simp add: powr_minus_divide)
qed

theorem fsd_even_split_rounded_witness:
  "(1::nat) \<le> 3 \<and>
   (\<exists>M. fsd_matrix_fl 3 = Inr M \<and> length M = 3 \<and> M ! 0 ! 0 = 0 \<and> M ! 0 ! 1 = 1 / 2 \<and>
      M ! 0 ! 2 = 1 / 2 \<and> M ! 1 ! 0 = 0 \<and> M ! 1 ! 2 = 1 \<and>
      \<bar>sum_list (M ! 0) - 1\<bar> \<le> 1 / 2 ^ 53 \<and> \<bar>sum_list (M ! 1) - 1\<bar> \<le> 1 / 2 ^ 53 \<and>
      M ! 2 ! 2 = 0)"
proof -
  have h: "(1::nat) \<le> 3" by simp
  from fsd_even_split_rounded[OF h] obtain M where
    M: "fsd_matrix_fl 3 = Inr M" "length M = 3"
      "\<forall>i<3. length (M ! i) = 3 \<and>
        (\<forall>j<3. M ! i ! j = (if i < j then fl (1 / (real 3 - real i - 1)) else 0))"
      "\<forall>i<3 - 1. \<bar>sum_list (M ! i) - 1\<bar> \<le> 1 / 2 ^ 53"
      "\<forall>j<3. M ! (3 - 1) ! j = 0"
    by blast
  have "M ! 0 ! 0 = 0" "M ! 0 ! 1 = 1 / 2" "M ! 0 ! 2 = 1 / 2" "M ! 1 ! 0 = 0" "M ! 1 ! 2 = 1"
    using M(3) by (simp_all add: fl_half)
  moreover have "\<bar>sum_list (M ! 0) - 1\<bar> \<le> 1 / 2 ^ 53" "\<bar>sum_list (M ! 1) - 1\<bar> \<le> 1 / 2 ^ 53"
    using M(4) by simp_all
  moreover have "M ! 2 ! 2 = 0"
    using M(5) by simp
  ultimately show ?thesis using M(1,2) by auto
qed

lemma upt_7: "[0..<7] = [0, 1, 2, 3, 4, 5, 6]"
  by (simp add: upt_rec)

text \<open>
  Claim C2, as stated, fails for seven classes, the value the slider starts with: the
  six nonzero entries of row 0 are the double nearest to \<open>1 / 6\<close>, which is not \<open>1 / 6\<close>,
  and they add up to \<open>1 - 2\<^sup>-\<^sup>5\<^sup>4\<close>, not to 1.
\<close>

theorem row_sum_rounded_counterexample:
  "map_sum id (\<lambda>M. M ! 0) (fsd_matrix_fl 7)
     = Inr [0, 6004799503160661 / 2 ^ 55, 6004799503160661 / 2 ^ 55, 6004799503160661 / 2 ^ 55,
            6004799503160661 / 2 ^ 55, 6004799503160661 / 2 ^ 55, 6004799503160661 / 2 ^ 55] \<and>
   (6004799503160661 / 2 ^ 55 :: real) \<noteq> 1 / 6 \<and>
   sum_list [0, 6004799503160661 / 2 ^ 55, 6004799503160661 / 2 ^ 55, 6004799503160661 / 2 ^ 55,
            6004799503160661 / 2 ^ 55, 6004799503160661 / 2 ^ 55, 6004799503160661 / 2 ^ 55]
     = (1 - 1 / 2 ^ 54 :: real) \<and>
   (1 - 1 / 2 ^ 54 :: real) \<noteq> 1"
  by (simp add: fsd_matrix_fl_eq upt_7 fl_sixth)

section \<open>The model in double precision\<close>

lemma linspace_fl_neg: "num < 0 \<Longrightarrow> linspace_fl a b num = Inl ValueError"
  by (simp add: linspace_fl_def)

lemma linspace_fl_ex: "0 \<le> num \<Longrightarrow> \<exists>ys. linspace_fl a b num = Inr ys \<and> length ys = nat num"
  by (simp add: linspace_fl_def Let_def)

lemma d_sizes_fl_ex:
  assumes "0 \<le> K"
  shows "\<exists>ds. d_sizes_fl pw r K = Inr ds"
proof -
  from linspace_fl_ex[OF assms] obtain ys where
    "linspace_fl (fl (real_of_int (snd r))) (fl (real_of_int (fst r))) K = Inr ys"
    by blast
  then show ?thesis by (simp add: d_sizes_fl_def logspace_fl_def)
qed

lemma d_sizes_fl_length: "d_sizes_fl pw r K = Inr ds \<Longrightarrow> length ds = nat K"
proof (cases "K < 0")
  case True
  assume "d_sizes_fl pw r K = Inr ds"
  then show ?thesis using True by (simp add: d_sizes_fl_def logspace_fl_def linspace_fl_neg)
next
  case False
  assume a: "d_sizes_fl pw r K = Inr ds"
  from False obtain ys where
    ys: "linspace_fl (fl (real_of_int (snd r))) (fl (real_of_int (fst r))) K = Inr ys"
      "length ys = nat K"
    using linspace_fl_ex[of K] by force
  then show ?thesis using a by (auto simp: d_sizes_fl_def logspace_fl_def)
qed

lemma pow_ok_pos: "pow_ok pw \<Longrightarrow> 0 < x \<Longrightarrow> 0 < pw x y"
proof -
  assume ok: "pow_ok pw" and x: "0 < x"
  have "\<bar>pw x y - x powr y\<bar> \<le> x powr y / 2 ^ 50"
    using ok x by (simp add: pow_ok_def)
  moreover have "x powr y / 2 ^ 50 < x powr y" using x by simp
  ultimately show ?thesis by linarith
qed

lemma d_sizes_fl_pos:
  assumes "pow_ok pw" "d_sizes_fl pw r K = Inr ds" "x \<in> set ds"
  shows "0 < x"
proof -
  from assms(2) obtain ys where "ds = map (\<lambda>x. pw 10 x) ys"
    by (auto simp: d_sizes_fl_def logspace_fl_def and_then_def split: sum.splits)
  then show ?thesis using assms(1,3) by (auto simp: pow_ok_pos)
qed

lemma median_fl_pos:
  assumes "xs \<noteq> []" "\<forall>x\<in>set xs. 0 < x"
  shows "\<exists>m. median_fl xs = Some m \<and> 0 < m"
proof -
  define s where "s = sort xs"
  define n where "n = length xs"
  have n: "0 < n" using assms(1) by (simp add: n_def)
  have mem: "i < n \<Longrightarrow> 0 < s ! i" for i
    using nth_mem[of i s] assms(2) by (simp add: s_def n_def)
  show ?thesis
  proof (cases "odd n")
    case True
    have "median_fl xs = Some (s ! (n div 2))"
      using True n by (simp add: median_fl_def s_def n_def Let_def)
    moreover have "0 < s ! (n div 2)" using n by (intro mem) simp
    ultimately show ?thesis by simp
  next
    case False
    have "median_fl xs = Some (fl (fl (s ! (n div 2 - 1) + s ! (n div 2)) / 2))"
      using False n by (simp add: median_fl_def s_def n_def Let_def)
    moreover have "0 < s ! (n div 2)" using n by (intro mem) simp
    moreover have "0 < s ! (n div 2 - 1)" using n by (intro mem) simp
    ultimately show ?thesis by (simp add: fl_pos)
  qed
qed

lemma length_k_frag_law_fl: "length (k_frag_law_fl pw kb th ds) = length ds"
  by (cases "median_fl ds") (auto simp: k_frag_law_fl_def median_fl_def Let_def split: if_splits)

lemma fragmentmnp_fl_Inr:
  assumes "1 \<le> K" and "d_sizes_fl pw r K = Inr ds"
  shows "fragmentmnp_fl pw K r kb th n0 loss =
    Inr \<lparr>psd = ds,
         k_frag = (if loss then k_frag_law_fl pw kb th ds
                   else (k_frag_law_fl pw kb th ds)[nat K - 1 := 0]),
         n_0 = replicate (nat K) n0,
         fsd = map (\<lambda>i. map (\<lambda>j. if i < j then fl (1 / real (nat K - i - 1)) else 0) [0..<nat K])
                 [0..<nat K]\<rparr>"
proof -
  have "length (k_frag_law_fl pw kb th ds) = nat K"
    using d_sizes_fl_length[OF assms(2)] by (simp add: length_k_frag_law_fl)
  then have "setitem (k_frag_law_fl pw kb th ds) (K - 1) 0
      = Inr ((k_frag_law_fl pw kb th ds)[nat K - 1 := 0])"
    using assms(1) by (simp add: setitem_last)
  then show ?thesis
    by (simp add: fragmentmnp_fl_def assms(2) fsd_matrix_fl_eq)
qed

lemma fragmentmnp_fl_fields:
  assumes "fragmentmnp_fl pw K r kb th n0 loss = Inr m" "1 \<le> K"
  shows "d_sizes_fl pw r K = Inr (psd m)"
    and "k_frag m = (if loss then k_frag_law_fl pw kb th (psd m)
                     else (k_frag_law_fl pw kb th (psd m))[nat K - 1 := 0])"
    and "n_0 m = replicate (nat K) n0"
    and "fsd m = map (\<lambda>i. map (\<lambda>j. if i < j then fl (1 / real (nat K - i - 1)) else 0) [0..<nat K])
                   [0..<nat K]"
    and "length (psd m) = nat K" and "length (k_frag m) = nat K"
proof -
  obtain ds where ds: "d_sizes_fl pw r K = Inr ds"
    using assms(2) d_sizes_fl_ex[of K pw r] by auto
  from fragmentmnp_fl_Inr[OF assms(2) ds, of kb th n0 loss] assms(1)
  have m: "m = \<lparr>psd = ds,
         k_frag = (if loss then k_frag_law_fl pw kb th ds
                   else (k_frag_law_fl pw kb th ds)[nat K - 1 := 0]),
         n_0 = replicate (nat K) n0,
         fsd = map (\<lambda>i. map (\<lambda>j. if i < j then fl (1 / real (nat K - i - 1)) else 0) [0..<nat K])
                 [0..<nat K]\<rparr>"
    by simp
  show "d_sizes_fl pw r K = Inr (psd m)" using ds m by simp
  show "k_frag m = (if loss then k_frag_law_fl pw kb th (psd m)
                     else (k_frag_law_fl pw kb th (psd m))[nat K - 1 := 0])"
    using m by simp
  show "n_0 m = replicate (nat K) n0" using m by simp
  show "fsd m = map (\<lambda>i. map (\<lambda>j. if i < j then fl (1 / real (nat K - i - 1)) else 0) [0..<nat K])
                   [0..<nat K]"
    using m by simp
  show "length (psd m) = nat K" using m d_sizes_fl_length[OF ds] by simp
  show "length (k_frag m) = nat K"
    using m d_sizes_fl_length[OF ds] by (simp add: length_k_frag_law_fl)
qed

lemma dndt_k_fl_eq:
  assumes "length kf = K" "length M = K" "length n = K" "k < K"
  shows "dndt_k_fl sm kf M n k
       = Inr (fl (fl (- kf ! k * n ! k)
                  + sm (map (\<lambda>i. fl (fl (M ! i ! k * kf ! i) * n ! i)) [0..<K])))"
proof -
  have "map2 (\<lambda>x y. fl (x * y)) (map2 (\<lambda>x y. fl (x * y)) (map (\<lambda>row. row ! k) M) kf) n
      = map (\<lambda>i. fl (fl (M ! i ! k * kf ! i) * n ! i)) [0..<K]"
    using assms by (intro nth_equalityI) simp_all
  then show ?thesis
    using assms by (simp add: dndt_k_fl_def getitem_def column_def np_mul_fl_def)
qed

lemma f_loop_fl_eq:
  assumes "length kf = K" "length M = K" "length n = K" "\<forall>k\<in>set ks. k < K"
  shows "f_loop_fl sm kf M n ks
       = Inr (map (\<lambda>k. fl (fl (- kf ! k * n ! k)
                  + sm (map (\<lambda>i. fl (fl (M ! i ! k * kf ! i) * n ! i)) [0..<K]))) ks)"
  using assms(4)
proof (induction ks)
  case Nil
  show ?case by simp
next
  case (Cons k ks)
  then show ?case using dndt_k_fl_eq[OF assms(1-3), of k] by simp
qed

lemma f_fl_eq:
  assumes "length (k_frag m) = K" "length (fsd m) = K" "length n = K"
  shows "f_fl sm m t n
       = Inr (map (\<lambda>k. fl (fl (- k_frag m ! k * n ! k)
                  + sm (map (\<lambda>i. fl (fl (fsd m ! i ! k * k_frag m ! i) * n ! i)) [0..<K])))
               [0..<K])"
  unfolding f_fl_def using f_loop_fl_eq[OF assms, of "[0..<K]"] assms(3) by simp

section \<open>The total of the derivative in double precision\<close>

lemma even_split_column_sums_fun:
  fixes g :: "nat \<Rightarrow> real"
  assumes "1 \<le> K"
  shows "(\<Sum>k = 0..<K. \<Sum>i = 0..<K. (if i < k then 1 / real (K - i - 1) else 0) * g i)
       = (\<Sum>i = 0..<K - 1. g i)"
proof -
  have "(\<Sum>k = 0..<K. \<Sum>i = 0..<K. (if i < k then 1 / real (K - i - 1) else 0) * g i)
      = (\<Sum>i = 0..<K. \<Sum>k = 0..<K. (if i < k then 1 / real (K - i - 1) else 0) * g i)"
    by (rule sum.swap)
  also have "\<dots> = (\<Sum>i = 0..<K. (\<Sum>k = 0..<K. if i < k then 1 / real (K - i - 1) else 0) * g i)"
    by (simp add: sum_distrib_right)
  also have "\<dots> = (\<Sum>i = 0..<K. (if i + 1 < K then 1 else 0) * g i)"
  proof (rule sum.cong[OF refl])
    fix i assume "i \<in> {0..<K}"
    then have i: "i < K" by simp
    have "(\<Sum>k = 0..<K. if i < k then 1 / real (K - i - 1) else 0) = (if i + 1 < K then 1 else 0)"
      using i by (simp add: row_sum_set)
    then show "(\<Sum>k = 0..<K. if i < k then 1 / real (K - i - 1) else 0) * g i
        = (if i + 1 < K then 1 else 0) * g i"
      by simp
  qed
  also have "\<dots> = (\<Sum>i = 0..<K - 1. g i)"
  proof -
    from assms obtain K' where K: "K = Suc K'" by (cases K) simp_all
    have "(\<Sum>i = 0..<K'. (if i + 1 < Suc K' then 1 else 0) * g i) = (\<Sum>i = 0..<K'. g i)"
      by (intro sum.cong) simp_all
    then show ?thesis by (simp add: K)
  qed
  finally show ?thesis .
qed

lemma rounded_entry:
  fixes t q :: "nat \<Rightarrow> real"
  assumes ok: "sum_ok sm" and ap: "\<And>i. i < K \<Longrightarrow> approx 3 (t i) (q i)"
  shows "\<bar>fl (fl p0 + sm (map q [0..<K])) - (p0 + (\<Sum>i = 0..<K. t i))\<bar>
       \<le> ((1 + 1 / 2 ^ 53) ^ 2 - 1) * \<bar>p0\<bar>
         + ((1 + 1 / 2 ^ 53) ^ (K + 4) - 1) * (\<Sum>i = 0..<K. \<bar>t i\<bar>)"
proof -
  define U :: real where "U = 1 + 1 / 2 ^ 53"
  define W where "W = U ^ K"
  define T where "T = (\<Sum>i = 0..<K. \<bar>t i\<bar>)"
  define S where "S = (\<Sum>i = 0..<K. t i)"
  define Q where "Q = (\<Sum>i = 0..<K. q i)"
  define A where "A = (\<Sum>i = 0..<K. \<bar>q i\<bar>)"
  define s where "s = sm (map q [0..<K])"
  define p where "p = fl p0"
  have U: "1 \<le> U" by (simp add: U_def)
  have W: "1 \<le> W" unfolding W_def using U by (rule one_le_power)
  have T0: "0 \<le> T" by (simp add: T_def sum_nonneg)
  have QS: "\<bar>Q - S\<bar> \<le> (U ^ 3 - 1) * T"
    unfolding Q_def S_def T_def U_def using ap by (rule approx_sum)
  have "A \<le> (\<Sum>i = 0..<K. U ^ 3 * \<bar>t i\<bar>)"
    unfolding A_def U_def using ap by (intro sum_mono approx_abs_le) simp
  then have AT: "A \<le> U ^ 3 * T" by (simp add: T_def sum_distrib_left)
  have "\<bar>s - Q\<bar> \<le> (W - 1) * A"
  proof -
    have "sum_list (map q [0..<K]) = Q"
      by (simp add: Q_def interv_sum_list_conv_sum_set_nat)
    moreover have "sum_list (map abs (map q [0..<K])) = A"
      by (simp add: A_def interv_sum_list_conv_sum_set_nat comp_def)
    ultimately show ?thesis
      using ok[unfolded sum_ok_def, rule_format, of "map q [0..<K]"]
      by (simp add: s_def W_def U_def)
  qed
  also have "\<dots> \<le> (W - 1) * (U ^ 3 * T)"
    using AT W by (intro mult_left_mono) simp_all
  finally have sQ: "\<bar>s - Q\<bar> \<le> (W - 1) * (U ^ 3 * T)" .
  have "\<bar>s - S\<bar> \<le> \<bar>s - Q\<bar> + \<bar>Q - S\<bar>" by linarith
  also have "\<dots> \<le> (W - 1) * (U ^ 3 * T) + (U ^ 3 - 1) * T" using sQ QS by linarith
  also have "\<dots> = (U ^ 3 * W - 1) * T" by (simp add: algebra_simps)
  finally have sS: "\<bar>s - S\<bar> \<le> (U ^ 3 * W - 1) * T" .
  have "\<bar>S\<bar> \<le> T" unfolding S_def T_def by (rule sum_abs)
  then have "\<bar>s\<bar> \<le> T + (U ^ 3 * W - 1) * T" using sS by linarith
  then have s_le: "\<bar>s\<bar> \<le> U ^ 3 * W * T" by (simp add: algebra_simps)
  have pp: "\<bar>p - p0\<bar> \<le> (U - 1) * \<bar>p0\<bar>"
    using fl_error[of p0] by (simp add: p_def U_def)
  then have "\<bar>p\<bar> \<le> \<bar>p0\<bar> + (U - 1) * \<bar>p0\<bar>" by linarith
  then have p_le: "\<bar>p\<bar> \<le> U * \<bar>p0\<bar>" by (simp add: algebra_simps)
  have "\<bar>fl (p + s) - (p + s)\<bar> \<le> (U - 1) * \<bar>p + s\<bar>"
    using fl_error[of "p + s"] by (simp add: U_def)
  also have "\<dots> \<le> (U - 1) * (U * \<bar>p0\<bar> + U ^ 3 * W * T)"
  proof -
    have "\<bar>p + s\<bar> \<le> U * \<bar>p0\<bar> + U ^ 3 * W * T" using p_le s_le by linarith
    then show ?thesis using U by (intro mult_left_mono) simp_all
  qed
  finally have r: "\<bar>fl (p + s) - (p + s)\<bar> \<le> (U - 1) * (U * \<bar>p0\<bar> + U ^ 3 * W * T)" .
  have "\<bar>fl (p + s) - (p0 + S)\<bar> \<le> \<bar>fl (p + s) - (p + s)\<bar> + \<bar>p - p0\<bar> + \<bar>s - S\<bar>"
    by linarith
  also have "\<dots> \<le> (U - 1) * (U * \<bar>p0\<bar> + U ^ 3 * W * T) + (U - 1) * \<bar>p0\<bar> + (U ^ 3 * W - 1) * T"
    using r pp sS by linarith
  also have "\<dots> = (U ^ 2 - 1) * \<bar>p0\<bar> + (U ^ (K + 4) - 1) * T"
    by (simp add: W_def power_add power2_eq_square power3_eq_cube power4_eq_xxxx algebra_simps)
  finally show ?thesis
    by (simp add: p_def s_def S_def T_def U_def)
qed

lemma rounded_product_approx:
  "approx 3 ((if i < k then 1 / N else 0) * a * b)
            (fl (fl ((if i < k then fl (1 / N) else 0) * a) * b))"
proof (cases "i < k")
  case True
  have "approx (Suc 0) (1 / N) (fl (1 / N))" by (intro approx_fl approx_refl)
  then have "approx (Suc 0) (1 / N * a) (fl (1 / N) * a)" by (rule approx_mult)
  then have "approx (Suc (Suc 0)) (1 / N * a) (fl (fl (1 / N) * a))" by (rule approx_fl)
  then have "approx (Suc (Suc 0)) (1 / N * a * b) (fl (fl (1 / N) * a) * b)" by (rule approx_mult)
  then have "approx (Suc (Suc (Suc 0))) (1 / N * a * b) (fl (fl (fl (1 / N) * a) * b))"
    by (rule approx_fl)
  then show ?thesis using True by (simp add: numeral_3_eq_3)
next
  case False
  then show ?thesis by (simp add: approx_refl)
qed

lemma total_rounded:
  fixes kf n :: "real list"
  assumes ok: "sum_ok sm" and K: "1 \<le> K"
  defines "out \<equiv> \<lambda>k. fl (fl (- kf ! k * n ! k)
      + sm (map (\<lambda>i. fl (fl ((if i < k then fl (1 / real (K - i - 1)) else 0) * kf ! i) * n ! i))
             [0..<K]))"
  shows "\<bar>(\<Sum>k = 0..<K. out k) - (- kf ! (K - 1) * n ! (K - 1))\<bar>
       \<le> 2 * ((1 + 1 / 2 ^ 53) ^ (K + 4) - 1) * (\<Sum>i = 0..<K. \<bar>kf ! i * n ! i\<bar>)"
proof -
  define U :: real where "U = 1 + 1 / 2 ^ 53"
  define A where "A = (\<Sum>i = 0..<K. \<bar>kf ! i * n ! i\<bar>)"
  define t where "t = (\<lambda>k i. (if i < k then 1 / real (K - i - 1) else 0) * kf ! i * n ! i)"
  define ex where "ex = (\<lambda>k. - kf ! k * n ! k + (\<Sum>i = 0..<K. t k i))"
  have U: "1 \<le> U" by (simp add: U_def)
  have A0: "0 \<le> A" by (simp add: A_def sum_nonneg)
  have each: "\<bar>out k - ex k\<bar>
      \<le> (U ^ 2 - 1) * \<bar>kf ! k * n ! k\<bar> + (U ^ (K + 4) - 1) * (\<Sum>i = 0..<K. \<bar>t k i\<bar>)" for k
  proof -
    have "\<bar>fl (fl (- kf ! k * n ! k)
        + sm (map (\<lambda>i. fl (fl ((if i < k then fl (1 / real (K - i - 1)) else 0) * kf ! i) * n ! i))
               [0..<K]))
        - (- kf ! k * n ! k + (\<Sum>i = 0..<K. t k i))\<bar>
      \<le> ((1 + 1 / 2 ^ 53) ^ 2 - 1) * \<bar>- kf ! k * n ! k\<bar>
        + ((1 + 1 / 2 ^ 53) ^ (K + 4) - 1) * (\<Sum>i = 0..<K. \<bar>t k i\<bar>)"
      unfolding t_def by (rule rounded_entry[OF ok]) (rule rounded_product_approx)
    then show ?thesis by (simp add: out_def ex_def U_def)
  qed
  have exact: "(\<Sum>k = 0..<K. ex k) = - kf ! (K - 1) * n ! (K - 1)"
    unfolding ex_def t_def by (rule total_rhs[OF K])
  have spread: "(\<Sum>k = 0..<K. \<Sum>i = 0..<K. \<bar>t k i\<bar>) \<le> A"
  proof -
    have "(\<Sum>k = 0..<K. \<Sum>i = 0..<K. \<bar>t k i\<bar>)
        = (\<Sum>k = 0..<K. \<Sum>i = 0..<K. (if i < k then 1 / real (K - i - 1) else 0) * \<bar>kf ! i * n ! i\<bar>)"
      by (intro sum.cong refl) (simp add: t_def abs_mult)
    also have "\<dots> = (\<Sum>i = 0..<K - 1. \<bar>kf ! i * n ! i\<bar>)"
      by (rule even_split_column_sums_fun[OF K])
    also have "\<dots> \<le> A"
      unfolding A_def by (intro sum_mono2) auto
    finally show ?thesis .
  qed
  have "\<bar>(\<Sum>k = 0..<K. out k) - (\<Sum>k = 0..<K. ex k)\<bar> = \<bar>\<Sum>k = 0..<K. out k - ex k\<bar>"
    by (simp add: sum_subtractf)
  also have "\<dots> \<le> (\<Sum>k = 0..<K. \<bar>out k - ex k\<bar>)" by (rule sum_abs)
  also have "\<dots> \<le> (\<Sum>k = 0..<K. (U ^ 2 - 1) * \<bar>kf ! k * n ! k\<bar>
        + (U ^ (K + 4) - 1) * (\<Sum>i = 0..<K. \<bar>t k i\<bar>))"
    by (intro sum_mono each)
  also have "\<dots> = (U ^ 2 - 1) * A + (U ^ (K + 4) - 1) * (\<Sum>k = 0..<K. \<Sum>i = 0..<K. \<bar>t k i\<bar>)"
    by (simp add: sum.distrib sum_distrib_left A_def)
  also have "\<dots> \<le> (U ^ 2 - 1) * A + (U ^ (K + 4) - 1) * A"
  proof -
    have "0 \<le> U ^ (K + 4) - 1" using U by simp
    then show ?thesis using spread by (simp add: mult_left_mono)
  qed
  also have "\<dots> \<le> (U ^ (K + 4) - 1) * A + (U ^ (K + 4) - 1) * A"
  proof -
    have "U ^ 2 \<le> U ^ (K + 4)" using U by (intro power_increasing) simp_all
    then have "(U ^ 2 - 1) * A \<le> (U ^ (K + 4) - 1) * A"
      using A0 by (intro mult_right_mono) simp_all
    then show ?thesis by linarith
  qed
  finally have fin: "\<bar>(\<Sum>k = 0..<K. out k) - (\<Sum>k = 0..<K. ex k)\<bar>
      \<le> (U ^ (K + 4) - 1) * A + (U ^ (K + 4) - 1) * A" .
  have "(U ^ (K + 4) - 1) * A + (U ^ (K + 4) - 1) * A = 2 * (U ^ (K + 4) - 1) * A"
    by simp
  with fin have "\<bar>(\<Sum>k = 0..<K. out k) - (- kf ! (K - 1) * n ! (K - 1))\<bar>
      \<le> 2 * (U ^ (K + 4) - 1) * A"
    by (simp only: exact)
  then show ?thesis unfolding U_def A_def .
qed

lemma f_fl_total:
  assumes "sum_ok sm" "fragmentmnp_fl pw K r kb th n0 loss = Inr m" "1 \<le> K" "length n = nat K"
  shows "\<exists>dndt. f_fl sm m t n = Inr dndt \<and> length dndt = nat K \<and>
           \<bar>sum_list dndt - (- k_frag m ! (nat K - 1) * n ! (nat K - 1))\<bar>
             \<le> 2 * ((1 + 1 / 2 ^ 53) ^ (nat K + 4) - 1)
                 * (\<Sum>i = 0..<nat K. \<bar>k_frag m ! i * n ! i\<bar>)"
proof -
  note flds = fragmentmnp_fl_fields[OF assms(2,3)]
  have lenM: "length (fsd m) = nat K" by (simp add: flds(4))
  define out where "out = (\<lambda>k. fl (fl (- k_frag m ! k * n ! k)
      + sm (map (\<lambda>i. fl (fl ((if i < k then fl (1 / real (nat K - i - 1)) else 0) * k_frag m ! i) * n ! i))
             [0..<nat K])))"
  define dndt where "dndt = map out [0..<nat K]"
  have "f_fl sm m t n = Inr (map (\<lambda>k. fl (fl (- k_frag m ! k * n ! k)
                  + sm (map (\<lambda>i. fl (fl (fsd m ! i ! k * k_frag m ! i) * n ! i)) [0..<nat K])))
               [0..<nat K])"
    by (rule f_fl_eq[OF flds(6) lenM assms(4)])
  also have "map (\<lambda>k. fl (fl (- k_frag m ! k * n ! k)
                  + sm (map (\<lambda>i. fl (fl (fsd m ! i ! k * k_frag m ! i) * n ! i)) [0..<nat K])))
               [0..<nat K] = dndt"
    unfolding dndt_def out_def
    by (intro map_cong refl arg_cong[where f=fl] arg_cong2[where f="(+)"] arg_cong[where f=sm])
      (simp_all add: flds(4))
  finally have run: "f_fl sm m t n = Inr dndt" .
  have K: "1 \<le> nat K" using assms(3) by simp
  have "sum_list dndt = (\<Sum>k = 0..<nat K. out k)"
    by (simp add: dndt_def interv_sum_list_conv_sum_set_nat)
  then have "\<bar>sum_list dndt - (- k_frag m ! (nat K - 1) * n ! (nat K - 1))\<bar>
             \<le> 2 * ((1 + 1 / 2 ^ 53) ^ (nat K + 4) - 1)
                 * (\<Sum>i = 0..<nat K. \<bar>k_frag m ! i * n ! i\<bar>)"
    using total_rounded[OF assms(1) K, of "k_frag m" n] by (simp add: out_def)
  moreover have "length dndt = nat K" by (simp add: dndt_def)
  ultimately show ?thesis using run by blast
qed

text \<open>
  Claim C10, as amended. For a model built in double precision with \<open>K \<ge> 1\<close> classes,
  every time \<open>t\<close> and every state \<open>n\<close> of length \<open>K\<close>, the right-hand side returns \<open>K\<close>
  derivatives, and their total is \<open>- k_frag[K-1] * n[K-1]\<close> up to rounding: the two
  differ by at most \<open>2 * ((1 + 2\<^sup>-\<^sup>5\<^sup>3)\<^sup>K\<^sup>+\<^sup>4 - 1)\<close> times the sum of the \<open>\<bar>k_frag[i] * n[i]\<bar>\<close>.
  \<^verbatim>\<open>np.sum\<close> is any summation \<open>sm\<close> with \<open>sum_ok sm\<close>.
\<close>

theorem total_derivative_rounded:
  assumes "sum_ok sm" "fragmentmnp_fl pw K r kb th n0 loss = Inr m" "1 \<le> K" "length n = nat K"
  shows "\<exists>dndt. f_fl sm m t n = Inr dndt \<and> length dndt = nat K \<and>
           \<bar>sum_list dndt - (- k_frag m ! (nat K - 1) * n ! (nat K - 1))\<bar>
             \<le> 2 * ((1 + 1 / 2 ^ 53) ^ (nat K + 4) - 1)
                 * (\<Sum>i = 0..<nat K. \<bar>k_frag m ! i * n ! i\<bar>)"
  by (rule f_fl_total[OF assms])

lemma pow_ok_pow_fl: "pow_ok pow_fl"
  unfolding pow_ok_def
proof (intro allI impI conjI)
  fix x y :: real
  assume x: "0 < x"
  have "\<bar>fl (x powr y) - x powr y\<bar> \<le> \<bar>x powr y\<bar> / 2 ^ 53" by (rule fl_error)
  also have "\<dots> \<le> x powr y / 2 ^ 50" by (simp add: divide_left_mono)
  finally show "\<bar>pow_fl x y - x powr y\<bar> \<le> x powr y / 2 ^ 50" by (simp add: pow_fl_def)
  show "pow_fl x 0 = 1" using x by (simp add: pow_fl_def)
qed

lemma fl_m1 [simp]: "fl (- 1) = - 1"
  using fl_of_int[of "- 1"] by simp

lemma fl_1e20: "fl 100000000000000000000 = 100000000000000000000"
  using fl_exact[of 95367431640625 20] by simp

lemma fl_m1e20: "fl (- 100000000000000000000) = - 100000000000000000000"
  using fl_exact[of "- 95367431640625" 20] by simp

lemma fl_1e20_m1: "fl 99999999999999999999 = 100000000000000000000"
proof -
  have "fl 99999999999999999999
      = of_int (round_even (99999999999999999999 / 2 powr of_int (66 - 52))) * 2 powr of_int (66 - 52)"
    by (rule fl_eval) simp_all
  also have "99999999999999999999 / 2 powr of_int (66 - 52) = (99999999999999999999 / 16384 :: real)"
    by simp
  also have "round_even (99999999999999999999 / 16384) = 6103515625000000"
    by (simp add: round_even_def Let_def)
  finally show ?thesis by simp
qed


lemma d_sizes_fl_2:
  "\<bar>lo\<bar> < 2 ^ 53 \<Longrightarrow> \<bar>hi\<bar> < 2 ^ 53 \<Longrightarrow>
   d_sizes_fl pw (lo, hi) 2 = Inr [pw 10 (real_of_int hi), pw 10 (real_of_int lo)]"
  by (simp add: d_sizes_fl_def logspace_fl_def linspace_fl_def fl_of_int upt_2 Let_def)

lemma k_frag_law_fl_theta0:
  assumes "pow_ok pw" "ds \<noteq> []" "\<forall>x\<in>set ds. 0 < x" "fl kb = kb"
  shows "k_frag_law_fl pw kb 0 ds = map (\<lambda>x. kb) ds"
proof -
  from median_fl_pos[OF assms(2,3)] obtain dm where
    dm: "median_fl ds = Some dm" "0 < dm" by blast
  have one: "pw x 0 = 1" if "0 < x" for x
    using assms(1) that by (simp add: pow_ok_def)
  have "k_frag_law_fl pw kb 0 ds = map (\<lambda>x. fl (fl (kb / pw dm 0) * pw x 0)) ds"
    by (simp add: k_frag_law_fl_def dm(1))
  also have "\<dots> = map (\<lambda>x. kb) ds"
    using assms(3,4) one dm(2) by (intro map_cong refl) simp
  finally show ?thesis .
qed

lemma model_fl_K2_theta0:
  assumes "pow_ok pw" "fl kb = kb"
  shows "fragmentmnp_fl pw 2 (- 9, - 3) kb 0 n0 loss =
     Inr \<lparr>psd = [pw 10 (- 3), pw 10 (- 9)], k_frag = (if loss then [kb, kb] else [kb, 0]),
          n_0 = [n0, n0], fsd = [[0, 1], [0, 0]]\<rparr>"
proof -
  have h: "(1::int) \<le> 2" by simp
  have ds: "d_sizes_fl pw (- 9, - 3) 2 = Inr [pw 10 (- 3), pw 10 (- 9)]"
    using d_sizes_fl_2[of "- 9" "- 3" pw] by simp
  have pos: "\<forall>x\<in>set [pw 10 (- 3), pw 10 (- 9)]. 0 < x"
    using assms(1) by (simp add: pow_ok_pos)
  have kf: "k_frag_law_fl pw kb 0 [pw 10 (- 3), pw 10 (- 9)] = [kb, kb]"
    using k_frag_law_fl_theta0[OF assms(1) _ pos assms(2)] by simp
  show ?thesis
    using fragmentmnp_fl_Inr[OF h ds, of kb 0 n0 loss]
    by (simp add: kf upt_2 numeral_2_eq_2)
qed

lemma seq_sum_2: "seq_sum [x, y] = fl (fl x + y)"
  by (simp add: seq_sum_def)

lemma f_fl_K2:
  "f_fl seq_sum \<lparr>psd = ds, k_frag = [a, b], n_0 = ns, fsd = [[0, 1], [0, 0]]\<rparr> t [x, y]
     = Inr [fl (fl (- (a * x))), fl (fl (- (b * y)) + fl (fl (fl (fl a * x))))]"
  by (simp add: f_fl_def dndt_k_fl_def getitem_def column_def np_mul_fl_def seq_sum_2)

theorem total_derivative_rounded_witness:
  "sum_ok seq_sum \<and>
   fragmentmnp_fl pow_fl 2 (- 9, - 3) 1 0 42 True =
     Inr \<lparr>psd = [pow_fl 10 (- 3), pow_fl 10 (- 9)], k_frag = [1, 1], n_0 = [42, 42],
          fsd = [[0, 1], [0, 0]]\<rparr> \<and>
   (1::int) \<le> 2 \<and> length [42, 42 :: real] = nat 2 \<and>
   (\<exists>dndt. f_fl seq_sum \<lparr>psd = [pow_fl 10 (- 3), pow_fl 10 (- 9)], k_frag = [1, 1],
          n_0 = [42, 42], fsd = [[0, 1], [0, 0]]\<rparr> 0 [42, 42] = Inr dndt \<and> length dndt = 2 \<and>
      \<bar>sum_list dndt - (- 42)\<bar> \<le> 2 * ((1 + 1 / 2 ^ 53) ^ 6 - 1) * 84)"
proof -
  let ?m = "\<lparr>psd = [pow_fl 10 (- 3), pow_fl 10 (- 9)], k_frag = [1, 1], n_0 = [42, 42],
          fsd = [[0, 1], [0, 0]]\<rparr>"
  have built: "fragmentmnp_fl pow_fl 2 (- 9, - 3) 1 0 42 True = Inr ?m"
    using model_fl_K2_theta0[OF pow_ok_pow_fl fl_1, of 42 True] by simp
  have h3: "(1::int) \<le> 2" by simp
  have h4: "length [42, 42 :: real] = nat 2" by simp
  from total_derivative_rounded[OF sum_ok_seq_sum built h3 h4, of 0] obtain dndt where
    d: "f_fl seq_sum ?m 0 [42, 42] = Inr dndt" "length dndt = nat 2"
      "\<bar>sum_list dndt - (- k_frag ?m ! (nat 2 - 1) * [42, 42] ! (nat 2 - 1))\<bar>
             \<le> 2 * ((1 + 1 / 2 ^ 53) ^ (nat 2 + 4) - 1)
                 * (\<Sum>i = 0..<nat 2. \<bar>k_frag ?m ! i * [42, 42] ! i\<bar>)"
    by blast
  have "(\<Sum>i = 0..<nat 2. \<bar>k_frag ?m ! i * [42, 42 :: real] ! i\<bar>) = 84"
    by (simp add: numeral_2_eq_2)
  moreover have "nat 2 + 4 = (6::nat)" by simp
  ultimately have "\<bar>sum_list dndt - (- 42)\<bar> \<le> 2 * ((1 + 1 / 2 ^ 53) ^ 6 - 1) * 84"
    using d(3) by (simp only: model.simps) (simp add: numeral_2_eq_2)
  then show ?thesis using sum_ok_seq_sum built d(1,2) by auto
qed

text \<open>
  Claim C10, as stated, fails in double precision. For two classes with the rates 1 and
  the state \<open>[10\<^sup>2\<^sup>0, 1]\<close> the right-hand side returns \<open>- 10\<^sup>2\<^sup>0\<close> and \<open>10\<^sup>2\<^sup>0\<close>: the inflow
  \<open>10\<^sup>2\<^sup>0\<close> into class 1 absorbs its outflow 1. The total of the derivatives is 0, not
  \<open>- 1\<close>, although \<open>k_frag[1] * n[1] = 1\<close> is not zero.
\<close>

theorem total_derivative_rounded_counterexample:
  "fragmentmnp_fl pow_fl 2 (- 9, - 3) 1 0 1 True =
     Inr \<lparr>psd = [pow_fl 10 (- 3), pow_fl 10 (- 9)], k_frag = [1, 1], n_0 = [1, 1],
          fsd = [[0, 1], [0, 0]]\<rparr> \<and>
   f_fl seq_sum \<lparr>psd = [pow_fl 10 (- 3), pow_fl 10 (- 9)], k_frag = [1, 1], n_0 = [1, 1],
          fsd = [[0, 1], [0, 0]]\<rparr> 0 [100000000000000000000, 1]
     = Inr [- 100000000000000000000, 100000000000000000000] \<and>
   sum_list [- 100000000000000000000, 100000000000000000000 :: real] = 0 \<and>
   - ([1, 1 :: real] ! 1 * [100000000000000000000, 1] ! 1) = - 1 \<and>
   [1, 1 :: real] ! 1 * [100000000000000000000, 1] ! 1 \<noteq> 0"
proof -
  have "fragmentmnp_fl pow_fl 2 (- 9, - 3) 1 0 1 True =
     Inr \<lparr>psd = [pow_fl 10 (- 3), pow_fl 10 (- 9)], k_frag = [1, 1], n_0 = [1, 1],
          fsd = [[0, 1], [0, 0]]\<rparr>"
    using model_fl_K2_theta0[OF pow_ok_pow_fl fl_1, of 1 True] by simp
  moreover have "f_fl seq_sum \<lparr>psd = [pow_fl 10 (- 3), pow_fl 10 (- 9)], k_frag = [1, 1],
          n_0 = [1, 1], fsd = [[0, 1], [0, 0]]\<rparr> 0 [100000000000000000000, 1]
     = Inr [- 100000000000000000000, 100000000000000000000]"
    by (simp add: f_fl_K2 fl_1e20 fl_m1e20 fl_1e20_m1)
  ultimately show ?thesis by simp
qed

section \<open>The power law of the fragmentation rates in double precision\<close>








lemma k_frag_law_fl_nth:
  "median_fl ds = Some d_median \<Longrightarrow> k < length ds \<Longrightarrow>
   k_frag_law_fl pw kb th ds ! k
     = fl (fl (kb / pw d_median (2 * th)) * pw (ds ! k) (2 * th))"
  by (simp add: k_frag_law_fl_def Let_def)




lemma fl_gap_le:
  assumes "0 \<le> x" "2 * x \<le> y"
  shows "fl x \<le> fl y"
proof -
  have y: "0 \<le> y" using assms by linarith
  have "fl x \<le> x * (1 + 1 / 2 ^ 53)" by (rule fl_upper[OF assms(1)])
  also have "\<dots> \<le> y * (1 - 1 / 2 ^ 53)" using assms by simp
  also have "\<dots> \<le> fl y" by (rule fl_lower[OF y])
  finally show ?thesis .
qed

lemma median_fl_3_desc: "z \<le> y \<Longrightarrow> y \<le> x \<Longrightarrow> median_fl [x, y, z] = Some y"
  by (auto simp: median_fl_def Let_def numeral_3_eq_3)

lemma d_sizes_fl_3_default:
  "d_sizes_fl pw (- 9, - 3) 3 = Inr [pw 10 (- 3), pw 10 (- 6), pw 10 (- 9)]"
proof -
  have a: "fl (- 3) = - 3" using fl_of_int[of "- 3"] by simp
  have b: "fl (- 6) = - 6" using fl_of_int[of "- 6"] by simp
  have c: "fl (- 9) = - 9" using fl_of_int[of "- 9"] by simp
  show ?thesis
    by (simp add: d_sizes_fl_def logspace_fl_def linspace_fl_def upt_3 Let_def a b c)
qed

lemma model_fl_K3:
  "fragmentmnp_fl pw 3 (- 9, - 3) kb th n0 True =
     Inr \<lparr>psd = [pw 10 (- 3), pw 10 (- 6), pw 10 (- 9)],
          k_frag = k_frag_law_fl pw kb th [pw 10 (- 3), pw 10 (- 6), pw 10 (- 9)],
          n_0 = [n0, n0, n0], fsd = [[0, 1 / 2, 1 / 2], [0, 0, 1], [0, 0, 0]]\<rparr>"
proof -
  have h: "(1::int) \<le> 3" by simp
  show ?thesis
    using fragmentmnp_fl_Inr[OF h d_sizes_fl_3_default, of pw kb th n0 True]
    by (simp add: upt_3 numeral_3_eq_3 fl_half)
qed









section \<open>The spread of the rates in double precision\<close>

lemma pow_ok_bounds:
  assumes "pow_ok pw" "0 < x"
  shows "x powr y * (1 - 1 / 2 ^ 50) \<le> pw x y" "pw x y \<le> x powr y * (1 + 1 / 2 ^ 50)"
proof -
  have "\<bar>pw x y - x powr y\<bar> \<le> x powr y / 2 ^ 50"
    using assms by (simp add: pow_ok_def)
  then have "x powr y - x powr y / 2 ^ 50 \<le> pw x y" "pw x y \<le> x powr y + x powr y / 2 ^ 50"
    by linarith+
  then show "x powr y * (1 - 1 / 2 ^ 50) \<le> pw x y" "pw x y \<le> x powr y * (1 + 1 / 2 ^ 50)"
    by (simp_all only: right_diff_distrib distrib_left mult_1_right times_divide_eq_right)
qed

lemma rate_bounds:
  assumes ok: "pow_ok pw" and kp: "0 < kp" and x: "0 < x"
  shows "kp * x powr e * ((1 - 1 / 2 ^ 50) * (1 - 1 / 2 ^ 53)) \<le> fl (kp * pw x e)"
    and "fl (kp * pw x e) \<le> kp * x powr e * ((1 + 1 / 2 ^ 50) * (1 + 1 / 2 ^ 53))"
proof -
  have P: "0 < pw x e" using ok x by (rule pow_ok_pos)
  have z: "0 \<le> kp * pw x e" using kp P by simp
  have "kp * x powr e * ((1 - 1 / 2 ^ 50) * (1 - 1 / 2 ^ 53))
      = kp * (x powr e * (1 - 1 / 2 ^ 50)) * (1 - 1 / 2 ^ 53)"
    by (simp only: mult.assoc)
  also have "\<dots> \<le> kp * pw x e * (1 - 1 / 2 ^ 53)"
    using pow_ok_bounds(1)[OF ok x, of e] kp by (intro mult_right_mono mult_left_mono) simp_all
  also have "\<dots> \<le> fl (kp * pw x e)" by (rule fl_lower[OF z])
  finally show "kp * x powr e * ((1 - 1 / 2 ^ 50) * (1 - 1 / 2 ^ 53)) \<le> fl (kp * pw x e)" .
  have "fl (kp * pw x e) \<le> kp * pw x e * (1 + 1 / 2 ^ 53)" by (rule fl_upper[OF z])
  also have "\<dots> \<le> kp * (x powr e * (1 + 1 / 2 ^ 50)) * (1 + 1 / 2 ^ 53)"
    using pow_ok_bounds(2)[OF ok x, of e] kp by (intro mult_right_mono mult_left_mono) simp_all
  also have "\<dots> = kp * x powr e * ((1 + 1 / 2 ^ 50) * (1 + 1 / 2 ^ 53))"
    by (simp only: mult.assoc)
  finally show "fl (kp * pw x e) \<le> kp * x powr e * ((1 + 1 / 2 ^ 50) * (1 + 1 / 2 ^ 53))" .
qed

lemma ratio_bounds:
  assumes ok: "pow_ok pw" and kp: "0 < kp" and a: "0 < a" and b: "0 < b"
  defines "lo \<equiv> (1 - 1 / 2 ^ 50) * (1 - 1 / 2 ^ 53 :: real)"
    and "hi \<equiv> (1 + 1 / 2 ^ 50) * (1 + 1 / 2 ^ 53 :: real)"
  shows "(a / b) powr e * (lo / hi) \<le> fl (kp * pw a e) / fl (kp * pw b e)"
    and "fl (kp * pw a e) / fl (kp * pw b e) \<le> (a / b) powr e * (hi / lo)"
proof -
  have lo: "0 < lo" and hi: "0 < hi" by (simp_all add: lo_def hi_def)
  have A: "0 < a powr e" and B: "0 < b powr e" using a b by simp_all
  have Ra: "kp * a powr e * lo \<le> fl (kp * pw a e)" "fl (kp * pw a e) \<le> kp * a powr e * hi"
    unfolding lo_def hi_def by (rule rate_bounds[OF ok kp a])+
  have Rb: "kp * b powr e * lo \<le> fl (kp * pw b e)" "fl (kp * pw b e) \<le> kp * b powr e * hi"
    unfolding lo_def hi_def by (rule rate_bounds[OF ok kp b])+
  have posb: "0 < kp * b powr e * lo" using kp B lo by simp
  have posa: "0 < kp * a powr e * lo" using kp A lo by simp
  have R: "(a / b) powr e = a powr e / b powr e" using a b by (simp add: powr_divide)
  have "fl (kp * pw a e) / fl (kp * pw b e) \<le> (kp * a powr e * hi) / (kp * b powr e * lo)"
    using Ra(2) Rb(1) posb posa Ra(1) by (intro frac_le) simp_all
  also have "\<dots> = (a / b) powr e * (hi / lo)"
    using kp B lo by (simp add: R)
  finally show "fl (kp * pw a e) / fl (kp * pw b e) \<le> (a / b) powr e * (hi / lo)" .
  have "(a / b) powr e * (lo / hi) = (kp * a powr e * lo) / (kp * b powr e * hi)"
    using kp B hi by (simp add: R)
  also have "\<dots> \<le> fl (kp * pw a e) / fl (kp * pw b e)"
    using Ra(1) Rb(2) posb Rb(1) posa by (intro frac_le) simp_all
  finally show "(a / b) powr e * (lo / hi) \<le> fl (kp * pw a e) / fl (kp * pw b e)" .
qed

text \<open>
  Claim C9, as amended. In double precision, with fragmentation from the smallest class
  allowed, \<open>k_frag_bar > 0\<close>, \<open>K \<ge> 2\<close> classes of which the coarsest is larger than the
  finest, and exponents \<open>theta1' > theta1 \<ge> 0\<close> so far apart that
  \<open>(d[0] / d[K-1]) powr (2 * (theta1' - theta1)) \<ge> 1 + 2\<^sup>-\<^sup>4\<^sup>7\<close>: the ratio of the coarsest
  class's rate to the finest class's rate computed with \<open>theta1'\<close> strictly exceeds the
  same ratio computed with \<open>theta1\<close>.
\<close>

theorem rate_spread_increases_rounded:
  assumes "pow_ok pw"
    and "fragmentmnp_fl pw K r kb th n0 True = Inr m"
    and "fragmentmnp_fl pw K r kb th' n0 True = Inr m'"
    and "2 \<le> K" "psd m ! (nat K - 1) < psd m ! 0"
    and "0 < kb" "0 \<le> th" "th < th'"
    and "1 + 1 / 2 ^ 47 \<le> (psd m ! 0 / psd m ! (nat K - 1)) powr (2 * (th' - th))"
  shows "k_frag m ! 0 / k_frag m ! (nat K - 1) < k_frag m' ! 0 / k_frag m' ! (nat K - 1)"
proof -
  have K1: "1 \<le> K" using assms(4) by simp
  note flds = fragmentmnp_fl_fields[OF assms(2) K1]
  note flds' = fragmentmnp_fl_fields[OF assms(3) K1]
  have same: "psd m' = psd m" using flds(1) flds'(1) by simp
  have len: "length (psd m) = nat K" by (rule flds(5))
  have ne: "psd m \<noteq> []" using len K1 by auto
  have pos: "\<forall>x\<in>set (psd m). 0 < x" using d_sizes_fl_pos[OF assms(1) flds(1)] by blast
  from median_fl_pos[OF ne pos] obtain dm where
    med: "median_fl (psd m) = Some dm" and mpos: "0 < dm" by blast
  define a where "a = psd m ! 0"
  define b where "b = psd m ! (nat K - 1)"
  have i0: "0 < length (psd m)" and iK: "nat K - 1 < length (psd m)"
    using len assms(4) by simp_all
  have a: "0 < a" and b: "0 < b" using pos i0 iK by (simp_all add: a_def b_def)
  define lo :: real where "lo = (1 - 1 / 2 ^ 50) * (1 - 1 / 2 ^ 53)"
  define hi :: real where "hi = (1 + 1 / 2 ^ 50) * (1 + 1 / 2 ^ 53)"
  define R where "R = (a / b) powr (2 * th)"
  define R' where "R' = (a / b) powr (2 * th')"
  have kp: "0 < fl (kb / pw dm e)" for e
    using assms(6) pow_ok_pos[OF assms(1) mpos, of e] by (intro fl_pos) simp
  have rate: "k_frag m ! k = fl (fl (kb / pw dm (2 * th)) * pw (psd m ! k) (2 * th))"
    if "k < nat K" for k
    using that len flds(2) by (simp add: k_frag_law_fl_nth[OF med])
  have rate': "k_frag m' ! k = fl (fl (kb / pw dm (2 * th')) * pw (psd m ! k) (2 * th'))"
    if "k < nat K" for k
    using that len flds'(2) same by (simp add: k_frag_law_fl_nth[OF med])
  have up: "k_frag m ! 0 / k_frag m ! (nat K - 1) \<le> R * (hi / lo)"
    using ratio_bounds(2)[OF assms(1) kp a b, of "2 * th" "2 * th"] i0 iK len
    by (simp add: rate a_def b_def R_def hi_def lo_def)
  have down: "R' * (lo / hi) \<le> k_frag m' ! 0 / k_frag m' ! (nat K - 1)"
    using ratio_bounds(1)[OF assms(1) kp a b, of "2 * th'" "2 * th'"] i0 iK len
    by (simp add: rate' a_def b_def R'_def hi_def lo_def)
  have Rpos: "0 < R" using a b by (simp add: R_def)
  have "R' = R * (a / b) powr (2 * (th' - th))"
    by (simp add: R_def R'_def powr_add[symmetric] algebra_simps)
  moreover have "1 + 1 / 2 ^ 47 \<le> (a / b) powr (2 * (th' - th))"
    using assms(9) by (simp add: a_def b_def)
  ultimately have grow: "R * (1 + 1 / 2 ^ 47) \<le> R'"
    using Rpos by simp
  have gap: "hi / lo < (1 + 1 / 2 ^ 47) * (lo / hi)"
    by (simp add: hi_def lo_def field_simps)
  have "R * (hi / lo) < R * ((1 + 1 / 2 ^ 47) * (lo / hi))"
    using gap Rpos by (rule mult_strict_left_mono)
  also have "\<dots> = R * (1 + 1 / 2 ^ 47) * (lo / hi)" by (simp only: mult.assoc)
  also have "\<dots> \<le> R' * (lo / hi)"
    using grow by (intro mult_right_mono) (simp_all add: lo_def hi_def)
  finally have "R * (hi / lo) < R' * (lo / hi)" .
  then show ?thesis using up down by linarith
qed

lemma model_fl_K2:
  "fragmentmnp_fl pw 2 (- 9, - 3) kb th n0 loss =
     Inr \<lparr>psd = [pw 10 (- 3), pw 10 (- 9)],
          k_frag = (if loss then k_frag_law_fl pw kb th [pw 10 (- 3), pw 10 (- 9)]
                    else (k_frag_law_fl pw kb th [pw 10 (- 3), pw 10 (- 9)])[1 := 0]),
          n_0 = [n0, n0], fsd = [[0, 1], [0, 0]]\<rparr>"
proof -
  have h: "(1::int) \<le> 2" by simp
  have ds: "d_sizes_fl pw (- 9, - 3) 2 = Inr [pw 10 (- 3), pw 10 (- 9)]"
    using d_sizes_fl_2[of "- 9" "- 3" pw] by simp
  show ?thesis
    using fragmentmnp_fl_Inr[OF h ds, of kb th n0 loss]
    by (simp add: upt_2 numeral_2_eq_2)
qed

lemma default_diameters_fl:
  "(0::real) < pow_fl 10 (- 9)" "pow_fl 10 (- 9) < pow_fl 10 (- 3)"
  "(1 + 1 / 2 ^ 47) * pow_fl 10 (- 9) \<le> pow_fl 10 (- 3)"
proof -
  have lo: "(10 powr (- 3) :: real) * (1 - 1 / 2 ^ 53) \<le> pow_fl 10 (- 3)"
    unfolding pow_fl_def by (rule fl_lower) simp
  have hi: "pow_fl 10 (- 9) \<le> (10 powr (- 9) :: real) * (1 + 1 / 2 ^ 53)"
    unfolding pow_fl_def by (rule fl_upper) simp
  show pos: "(0::real) < pow_fl 10 (- 9)"
    unfolding pow_fl_def by (rule fl_pos) simp
  have num: "(1 + 1 / 2 ^ 47) * ((10 powr (- 9) :: real) * (1 + 1 / 2 ^ 53))
      \<le> 10 powr (- 3) * (1 - 1 / 2 ^ 53)"
    by (simp add: powr_minus_divide)
  have "(1 + 1 / 2 ^ 47) * pow_fl 10 (- 9) \<le> (1 + 1 / 2 ^ 47) * ((10 powr (- 9) :: real) * (1 + 1 / 2 ^ 53))"
    using hi by (intro mult_left_mono) simp_all
  then show gap: "(1 + 1 / 2 ^ 47) * pow_fl 10 (- 9) \<le> pow_fl 10 (- 3)"
    using num lo by linarith
  have "pow_fl 10 (- 9) < (1 + 1 / 2 ^ 47) * pow_fl 10 (- 9)"
    using pos by simp
  then show "pow_fl 10 (- 9) < pow_fl 10 (- 3)" using gap by linarith
qed

theorem rate_spread_increases_rounded_witness:
  "pow_ok pow_fl \<and>
   fragmentmnp_fl pow_fl 2 (- 9, - 3) 1 0 42 True =
     Inr \<lparr>psd = [pow_fl 10 (- 3), pow_fl 10 (- 9)], k_frag = [1, 1], n_0 = [42, 42],
          fsd = [[0, 1], [0, 0]]\<rparr> \<and>
   fragmentmnp_fl pow_fl 2 (- 9, - 3) 1 (1 / 2) 42 True =
     Inr \<lparr>psd = [pow_fl 10 (- 3), pow_fl 10 (- 9)],
          k_frag = k_frag_law_fl pow_fl 1 (1 / 2) [pow_fl 10 (- 3), pow_fl 10 (- 9)],
          n_0 = [42, 42], fsd = [[0, 1], [0, 0]]\<rparr> \<and>
   (2::int) \<le> 2 \<and> pow_fl 10 (- 9) < pow_fl 10 (- 3) \<and>
   (0::real) < 1 \<and> (0::real) \<le> 0 \<and> (0::real) < 1 / 2 \<and>
   1 + 1 / 2 ^ 47 \<le> (pow_fl 10 (- 3) / pow_fl 10 (- 9)) powr (2 * (1 / 2 - 0)) \<and>
   [1, 1 :: real] ! 0 / [1, 1] ! 1
     < k_frag_law_fl pow_fl 1 (1 / 2) [pow_fl 10 (- 3), pow_fl 10 (- 9)] ! 0
       / k_frag_law_fl pow_fl 1 (1 / 2) [pow_fl 10 (- 3), pow_fl 10 (- 9)] ! 1"
proof -
  let ?ds = "[pow_fl 10 (- 3), pow_fl 10 (- 9)]"
  let ?m = "\<lparr>psd = ?ds, k_frag = [1, 1], n_0 = [42, 42], fsd = [[0, 1], [0, 0]]\<rparr>"
  let ?m' = "\<lparr>psd = ?ds, k_frag = k_frag_law_fl pow_fl 1 (1 / 2) ?ds, n_0 = [42, 42],
          fsd = [[0, 1], [0, 0]]\<rparr>"
  have built: "fragmentmnp_fl pow_fl 2 (- 9, - 3) 1 0 42 True = Inr ?m"
    using model_fl_K2_theta0[OF pow_ok_pow_fl fl_1, of 42 True] by simp
  have built': "fragmentmnp_fl pow_fl 2 (- 9, - 3) 1 (1 / 2) 42 True = Inr ?m'"
    using model_fl_K2[of pow_fl 1 "1 / 2" 42 True] by simp
  have h4: "(2::int) \<le> 2" by simp
  have h5: "psd ?m ! (nat 2 - 1) < psd ?m ! 0"
    using default_diameters_fl(2) by simp
  have h6: "(0::real) < 1" and h7: "(0::real) \<le> 0" and h8: "(0::real) < 1 / 2" by simp_all
  have ratio: "1 + 1 / 2 ^ 47 \<le> pow_fl 10 (- 3) / pow_fl 10 (- 9)"
    using default_diameters_fl(1,3) by (simp add: pos_le_divide_eq)
  have pos: "(0::real) < pow_fl 10 (- 3)"
    using default_diameters_fl(1,2) by linarith
  have "(pow_fl 10 (- 3) / pow_fl 10 (- 9)) powr (2 * (1 / 2 - 0)) = pow_fl 10 (- 3) / pow_fl 10 (- 9)"
    using pos default_diameters_fl(1) by simp
  then have h9': "1 + 1 / 2 ^ 47 \<le> (pow_fl 10 (- 3) / pow_fl 10 (- 9)) powr (2 * (1 / 2 - 0))"
    using ratio by (simp only:)
  then have h9: "1 + 1 / 2 ^ 47 \<le> (psd ?m ! 0 / psd ?m ! (nat 2 - 1)) powr (2 * (1 / 2 - 0))"
    by simp
  from rate_spread_increases_rounded[OF pow_ok_pow_fl built built' h4 h5 h6 h7 h8 h9]
  have "[1, 1 :: real] ! 0 / [1, 1] ! 1
     < k_frag_law_fl pow_fl 1 (1 / 2) ?ds ! 0 / k_frag_law_fl pow_fl 1 (1 / 2) ?ds ! 1"
    by simp
  then show ?thesis
    using pow_ok_pow_fl built built' default_diameters_fl(2) h9' by simp
qed

lemma k_frag_law_fl_zero_rate: "k_frag_law_fl pw 0 th [x, y] = [0, 0]"
  by (simp add: k_frag_law_fl_def median_fl_def Let_def)

lemma fl_near_one:
  assumes "1 - 1 / 2 ^ 55 \<le> x" "x \<le> 1"
  shows "fl x = 1"
proof (cases "x = 1")
  case True
  then show ?thesis by simp
next
  case False
  then have x1: "x < 1" using assms(2) by simp
  have x0: "1 / 2 \<le> x" using assms(1) by simp
  have "fl x = of_int (round_even (x / 2 powr of_int (- 1 - 52))) * 2 powr of_int (- 1 - 52)"
    using x0 x1 by (intro fl_eval) (simp_all add: powr_minus_divide)
  also have "x / 2 powr of_int (- 1 - 52) = x * 2 ^ 53"
    by (simp add: powr_minus_divide)
  also have "round_even (x * 2 ^ 53) = 2 ^ 53"
  proof -
    have lo: "2 ^ 53 - 1 / 4 \<le> x * 2 ^ 53" using assms(1) by simp
    have hi: "x * 2 ^ 53 < 2 ^ 53" using x1 by simp
    have fl: "\<lfloor>x * 2 ^ 53\<rfloor> = 2 ^ 53 - 1"
      using lo hi by (intro floor_unique) simp_all
    show ?thesis
      unfolding round_even_def Let_def fl using lo by simp
  qed
  finally show ?thesis by (simp add: powr_minus_divide)
qed

lemma pow_fl_tiny:
  assumes "1 / 2 ^ 31 \<le> x" "x \<le> 1" "0 \<le> y" "y \<le> 1 / 2 ^ 90"
  shows "pow_fl x y = 1"
proof -
  have "(0::real) < 1 / 2 ^ 31" by simp
  then have x: "0 < x" using assms(1) by linarith
  have "ln (1 / x) \<le> 1 / x - 1" using x by (intro ln_le_minus_one) simp
  then have "- ln x \<le> 1 / x - 1" using x by (simp add: ln_div)
  moreover have "1 / x \<le> 2 ^ 31"
    using assms(1) x by (simp add: field_simps)
  ultimately have ln_lo: "- (2 ^ 31) \<le> ln x" by linarith
  have ln_hi: "ln x \<le> 0" using x assms(2) by simp
  have "y * (- (2 ^ 31)) \<le> y * ln x"
    using ln_lo assms(3) by (rule mult_left_mono)
  moreover have "(1 / 2 ^ 90) * (- (2 ^ 31)) \<le> y * (- (2 ^ 31) :: real)"
    using assms(4) by (intro mult_right_mono_neg) simp_all
  ultimately have lo: "- (1 / 2 ^ 59) \<le> y * ln x" by simp
  have hi: "y * ln x \<le> 0"
    using assms(3) ln_hi by (simp add: mult_nonneg_nonpos)
  have p: "x powr y = exp (y * ln x)" using x by (simp add: powr_def)
  have e: "1 + y * ln x \<le> exp (y * ln x)" by (rule exp_ge_add_one_self)
  have "(1 - 1 / 2 ^ 55 :: real) \<le> 1 - 1 / 2 ^ 59" by simp
  also have "\<dots> \<le> 1 + y * ln x" using lo by linarith
  also have "\<dots> \<le> exp (y * ln x)" by (rule e)
  finally have "1 - 1 / 2 ^ 55 \<le> x powr y" by (simp only: p)
  moreover have "x powr y \<le> 1" using hi by (simp add: p)
  ultimately show ?thesis unfolding pow_fl_def by (rule fl_near_one)
qed

lemma default_diameters_range:
  "1 / 2 ^ 31 \<le> pow_fl 10 (- 3)" "pow_fl 10 (- 3) \<le> 1"
  "1 / 2 ^ 31 \<le> pow_fl 10 (- 6)" "pow_fl 10 (- 6) \<le> 1"
  "1 / 2 ^ 31 \<le> pow_fl 10 (- 9)" "pow_fl 10 (- 9) \<le> 1"
proof -
  have lo: "(10 powr (- real k) :: real) * (1 - 1 / 2 ^ 53) \<le> pow_fl 10 (- real k)" for k
    unfolding pow_fl_def by (rule fl_lower) simp
  have hi: "pow_fl 10 (- real k) \<le> (10 powr (- real k) :: real) * (1 + 1 / 2 ^ 53)" for k
    unfolding pow_fl_def by (rule fl_upper) simp
  show "1 / 2 ^ 31 \<le> pow_fl 10 (- 3)" using lo[of 3] by (simp add: powr_minus_divide)
  show "pow_fl 10 (- 3) \<le> 1" using hi[of 3] by (simp add: powr_minus_divide)
  show "1 / 2 ^ 31 \<le> pow_fl 10 (- 6)" using lo[of 6] by (simp add: powr_minus_divide)
  show "pow_fl 10 (- 6) \<le> 1" using hi[of 6] by (simp add: powr_minus_divide)
  show "1 / 2 ^ 31 \<le> pow_fl 10 (- 9)" using lo[of 9] by (simp add: powr_minus_divide)
  show "pow_fl 10 (- 9) \<le> 1" using hi[of 9] by (simp add: powr_minus_divide)
qed

lemma k_frag_law_fl_tiny_theta:
  "k_frag_law_fl pow_fl 1 (1 / 2 ^ 100) [pow_fl 10 (- 3), pow_fl 10 (- 6), pow_fl 10 (- 9)]
     = [1, 1, 1]"
proof -
  have ord: "pow_fl 10 (- 9) \<le> pow_fl 10 (- 6)" "pow_fl 10 (- 6) \<le> pow_fl 10 (- 3)"
    unfolding pow_fl_def by (rule fl_gap_le; simp add: powr_minus_divide)+
  then have med: "median_fl [pow_fl 10 (- 3), pow_fl 10 (- 6), pow_fl 10 (- 9)]
      = Some (pow_fl 10 (- 6))"
    by (rule median_fl_3_desc)
  have y: "(0::real) \<le> 2 * (1 / 2 ^ 100)" "(2::real) * (1 / 2 ^ 100) \<le> 1 / 2 ^ 90"
    by simp_all
  note r = default_diameters_range
  have one: "pow_fl (pow_fl 10 (- 3)) (2 * (1 / 2 ^ 100)) = 1"
    "pow_fl (pow_fl 10 (- 6)) (2 * (1 / 2 ^ 100)) = 1"
    "pow_fl (pow_fl 10 (- 9)) (2 * (1 / 2 ^ 100)) = 1"
    by (rule pow_fl_tiny[OF r(1,2) y], rule pow_fl_tiny[OF r(3,4) y], rule pow_fl_tiny[OF r(5,6) y])
  have "k_frag_law_fl pow_fl 1 (1 / 2 ^ 100) [pow_fl 10 (- 3), pow_fl 10 (- 6), pow_fl 10 (- 9)]
      = (let k_prop = fl (1 / pow_fl (pow_fl 10 (- 6)) (2 * (1 / 2 ^ 100)))
         in map (\<lambda>x. fl (k_prop * pow_fl x (2 * (1 / 2 ^ 100))))
              [pow_fl 10 (- 3), pow_fl 10 (- 6), pow_fl 10 (- 9)])"
    unfolding k_frag_law_fl_def med by simp
  also have "\<dots> = [1, 1, 1]"
    unfolding Let_def list.map one by simp
  finally show ?thesis .
qed

lemma k_frag_law_fl_theta0_3:
  "k_frag_law_fl pow_fl 1 0 [pow_fl 10 (- 3), pow_fl 10 (- 6), pow_fl 10 (- 9)] = [1, 1, 1]"
proof -
  have pos: "\<forall>x\<in>set [pow_fl 10 (- 3), pow_fl 10 (- 6), pow_fl 10 (- 9)]. 0 < x"
    by (simp add: pow_ok_pos[OF pow_ok_pow_fl])
  show ?thesis
    using k_frag_law_fl_theta0[OF pow_ok_pow_fl _ pos fl_1] by simp
qed

text \<open>
  Claim C9, as stated, fails for \<open>k_frag_bar = 0\<close>, which the input field allows: every
  rate is 0 for every \<open>theta1\<close>, and the ratio does not grow. It fails as well when the
  smallest class is a terminal sink: the finest rate is 0 for \<open>theta1 = 0\<close> and for
  \<open>theta1 = 1 / 2\<close> alike, and no ratio of the coarsest to the finest rate exists.
  In double precision it fails for exponents that are too close: for three classes,
  \<open>k_frag_bar = 1\<close>, and the exponents 0 and \<open>2\<^sup>-\<^sup>1\<^sup>0\<^sup>0\<close> every rate is 1, so both
  ratios are 1.
\<close>

theorem rate_spread_rounded_counterexample:
  "fragmentmnp_fl pow_fl 2 (- 9, - 3) 0 0 42 True =
     Inr \<lparr>psd = [pow_fl 10 (- 3), pow_fl 10 (- 9)], k_frag = [0, 0], n_0 = [42, 42],
          fsd = [[0, 1], [0, 0]]\<rparr> \<and>
   fragmentmnp_fl pow_fl 2 (- 9, - 3) 0 (1 / 2) 42 True =
     Inr \<lparr>psd = [pow_fl 10 (- 3), pow_fl 10 (- 9)], k_frag = [0, 0], n_0 = [42, 42],
          fsd = [[0, 1], [0, 0]]\<rparr> \<and>
   pow_fl 10 (- 9) < pow_fl 10 (- 3) \<and>
   \<not> ([0, 0 :: real] ! 0 / [0, 0] ! 1 < [0, 0] ! 0 / [0, 0] ! 1) \<and>
   map_sum id (\<lambda>m. k_frag m ! 1) (fragmentmnp_fl pow_fl 2 (- 9, - 3) 1 0 42 False) = Inr 0 \<and>
   map_sum id (\<lambda>m. k_frag m ! 1) (fragmentmnp_fl pow_fl 2 (- 9, - 3) 1 (1 / 2) 42 False) = Inr 0 \<and>
   fragmentmnp_fl pow_fl 3 (- 9, - 3) 1 0 42 True =
     Inr \<lparr>psd = [pow_fl 10 (- 3), pow_fl 10 (- 6), pow_fl 10 (- 9)], k_frag = [1, 1, 1],
          n_0 = [42, 42, 42], fsd = [[0, 1 / 2, 1 / 2], [0, 0, 1], [0, 0, 0]]\<rparr> \<and>
   fragmentmnp_fl pow_fl 3 (- 9, - 3) 1 (1 / 2 ^ 100) 42 True =
     Inr \<lparr>psd = [pow_fl 10 (- 3), pow_fl 10 (- 6), pow_fl 10 (- 9)], k_frag = [1, 1, 1],
          n_0 = [42, 42, 42], fsd = [[0, 1 / 2, 1 / 2], [0, 0, 1], [0, 0, 0]]\<rparr> \<and>
   (0::real) < 1 / 2 ^ 100 \<and>
   \<not> ([1, 1, 1 :: real] ! 0 / [1, 1, 1] ! 2 < [1, 1, 1] ! 0 / [1, 1, 1] ! 2)"
proof -
  have a: "fragmentmnp_fl pow_fl 3 (- 9, - 3) 1 0 42 True =
     Inr \<lparr>psd = [pow_fl 10 (- 3), pow_fl 10 (- 6), pow_fl 10 (- 9)], k_frag = [1, 1, 1],
          n_0 = [42, 42, 42], fsd = [[0, 1 / 2, 1 / 2], [0, 0, 1], [0, 0, 0]]\<rparr>"
    by (simp only: model_fl_K3 k_frag_law_fl_theta0_3)
  have b: "fragmentmnp_fl pow_fl 3 (- 9, - 3) 1 (1 / 2 ^ 100) 42 True =
     Inr \<lparr>psd = [pow_fl 10 (- 3), pow_fl 10 (- 6), pow_fl 10 (- 9)], k_frag = [1, 1, 1],
          n_0 = [42, 42, 42], fsd = [[0, 1 / 2, 1 / 2], [0, 0, 1], [0, 0, 0]]\<rparr>"
    by (simp only: model_fl_K3 k_frag_law_fl_tiny_theta)
  have c: "fragmentmnp_fl pow_fl 2 (- 9, - 3) 0 0 42 True =
     Inr \<lparr>psd = [pow_fl 10 (- 3), pow_fl 10 (- 9)], k_frag = [0, 0], n_0 = [42, 42],
          fsd = [[0, 1], [0, 0]]\<rparr>"
    "fragmentmnp_fl pow_fl 2 (- 9, - 3) 0 (1 / 2) 42 True =
     Inr \<lparr>psd = [pow_fl 10 (- 3), pow_fl 10 (- 9)], k_frag = [0, 0], n_0 = [42, 42],
          fsd = [[0, 1], [0, 0]]\<rparr>"
    using model_fl_K2[of pow_fl 0 0 42 True] model_fl_K2[of pow_fl 0 "1 / 2" 42 True]
    by (simp_all add: k_frag_law_fl_zero_rate)
  have d: "map_sum id (\<lambda>m. k_frag m ! 1) (fragmentmnp_fl pow_fl 2 (- 9, - 3) 1 0 42 False) = Inr 0"
    "map_sum id (\<lambda>m. k_frag m ! 1) (fragmentmnp_fl pow_fl 2 (- 9, - 3) 1 (1 / 2) 42 False) = Inr 0"
    using model_fl_K2[of pow_fl 1 0 42 False] model_fl_K2[of pow_fl 1 "1 / 2" 42 False]
    by (simp_all add: length_k_frag_law_fl)
  show ?thesis
    using a b c d default_diameters_fl(2) by simp
qed

section \<open>The total concentration along a run\<close>









end
